theory Spec2Isabelle
  imports Main "HOL-Library.List_Lexorder" "HOL-Library.Char_ord" "HOL-Library.Sublist"
    "HOL-Library.Multiset"
begin

section \<open>The GraphQL mirror (src/graphql/mirror.js)\<close>

subsection \<open>Schema\<close>

type_synonym Typename = string
type_synonym Fieldname = string
type_synonym ObjectId = string
type_synonym UpdateId = int

text \<open>
  Modelled from the spec: the schema types of src/graphql/schema.js, which is not under
  src/. The mirror reads \<open>schema[typename].type\<close> (OBJECT or UNION),
  \<open>Object.keys(nodeType.fields)\<close> and \<open>field.type\<close> (ID, PRIMITIVE, NODE or
  CONNECTION). A JavaScript object is an association list in \<open>Object.keys\<close> order;
  its keys are distinct.
\<close>

datatype FieldType = ID | PRIMITIVE | NODE Typename | CONNECTION Typename

datatype NodeType = OBJECT "(Fieldname \<times> FieldType) list" | UNION "Typename list"

type_synonym Schema = "(Typename \<times> NodeType) list"

definition schema_wf :: "Schema \<Rightarrow> bool" where
  "schema_wf schema =
     (distinct (map fst schema) \<and>
      list_all (\<lambda>(t, nodeType).
        case nodeType of OBJECT flds \<Rightarrow> distinct (map fst flds) | UNION clauses \<Rightarrow> True) schema)"

subsection \<open>Errors\<close>

text \<open>
  The source throws \<open>Error\<close> objects that differ in their message only; each constructor
  stands for one \<open>throw\<close> site and carries the message. \<open>SqliteError\<close> is what the
  database driver throws when a statement violates a constraint, and
  \<open>UnexpectedNodeType\<close> is the \<open>throw\<close> of the \<open>default\<close> branch of the
  \<open>switch\<close> on \<open>nodeType.type\<close> in \<open>_nontransactionallyRegisterObject\<close>.
\<close>

datatype error =
    IncompatibleSchema string
  | UnsafeIdentifier string
  | UnknownType string
  | AmbiguousType string
  | InconsistentType string
  | UnknownConnection string
  | AlreadyInTransaction string
  | SqliteError string
  | UnexpectedNodeType string

subsection \<open>JSON.stringify on strings\<close>

definition hexDigit :: "nat \<Rightarrow> char" where
  "hexDigit n = ''0123456789abcdef'' ! (n mod 16)"

definition escapeChar :: "char \<Rightarrow> string" where
  "escapeChar c =
     (if c = CHR 0x22 then [CHR 0x5C, CHR 0x22]
      else if c = CHR 0x5C then [CHR 0x5C, CHR 0x5C]
      else if c = CHR 0x08 then [CHR 0x5C, CHR ''b'']
      else if c = CHR 0x0C then [CHR 0x5C, CHR ''f'']
      else if c = CHR 0x0A then [CHR 0x5C, CHR ''n'']
      else if c = CHR 0x0D then [CHR 0x5C, CHR ''r'']
      else if c = CHR 0x09 then [CHR 0x5C, CHR ''t'']
      else if (of_char c :: nat) < 32
        then [CHR 0x5C, CHR ''u'', CHR ''0'', CHR ''0'',
              hexDigit (of_char c div 16), hexDigit (of_char c mod 16)]
      else [c])"

definition JSON_stringify :: "string \<Rightarrow> string" where
  "JSON_stringify s = [CHR 0x22] @ concat (map escapeChar s) @ [CHR 0x22]"

subsection \<open>The database\<close>

text \<open>
  One record per table of \<open>_initialize\<close>, a row list per table in insertion order.
  A nullable column is an \<open>option\<close>. \<open>catalog\<close> lists the tables and indices that
  exist; \<open>inTransaction\<close> is the driver's flag of the same name.
\<close>

record update_row =
  u_rowid :: int
  u_time_epoch_millis :: int

record object_row =
  o_id :: ObjectId
  o_last_update :: "int option"
  o_typename :: Typename

record connection_row =
  c_rowid :: int
  c_object_id :: ObjectId
  c_fieldname :: Fieldname
  c_last_update :: "int option"
  c_total_count :: "int option"
  c_has_next_page :: "int option"
  c_end_cursor :: "string option"

record entry_row =
  e_rowid :: int
  e_connection_id :: int
  e_idx :: int
  e_child_id :: ObjectId

datatype catalog_entry =
    Table string "string list"
  | Index string string "string list"

fun entry_name :: "catalog_entry \<Rightarrow> string" where
  "entry_name (Table name columns) = name"
| "entry_name (Index name table columns) = name"

record database =
  inTransaction :: bool
  catalog :: "catalog_entry list"
  meta :: "(int \<times> string) list"
  updates :: "update_row list"
  objects :: "object_row list"
  connections :: "connection_row list"
  connection_entries :: "entry_row list"

type_synonym 'a result = "(error + 'a) \<times> database"

text \<open>
  The rowid of an \<open>INTEGER PRIMARY KEY\<close> column left out of an INSERT: one more than
  the largest in use, 1 in an empty table.
\<close>

definition next_rowid :: "int list \<Rightarrow> int" where
  "next_rowid rs = (if rs = [] then 1 else Max (set rs) + 1)"

subsection \<open>\<open>_inTransaction\<close>\<close>

definition run_inTransaction ::
  "database \<Rightarrow> (database \<Rightarrow> 'a result) \<Rightarrow> 'a result" where
  "run_inTransaction db fn =
     (if inTransaction db then (Inl (AlreadyInTransaction ''already in transaction''), db)
      else
        \<comment> \<open>BEGIN\<close>
        (case fn (db\<lparr>inTransaction := True\<rparr>) of
           (Inr r, db1) \<Rightarrow>
             \<comment> \<open>COMMIT\<close>
             (Inr r, if inTransaction db1 then db1\<lparr>inTransaction := False\<rparr> else db1)
         | (Inl e, db1) \<Rightarrow>
             \<comment> \<open>ROLLBACK: back to the rows at BEGIN\<close>
             (Inl e, if inTransaction db1 then db else db1)))"

subsection \<open>\<open>_createUpdate\<close>\<close>

definition createUpdate :: "int \<Rightarrow> database \<Rightarrow> UpdateId \<times> database" where
  "createUpdate updateTimestamp db =
     (let rowid = next_rowid (map u_rowid (updates db)) in
      (rowid,
       db\<lparr>updates := updates db @
         [\<lparr>u_rowid = rowid, u_time_epoch_millis = updateTimestamp\<rparr>]\<rparr>))"

subsection \<open>\<open>registerObject\<close>\<close>

text \<open>\<open>SELECT typename FROM objects WHERE id = ?\<close>, plucked: the first row's column.\<close>

definition select_typename :: "database \<Rightarrow> ObjectId \<Rightarrow> Typename option" where
  "select_typename db i = map_option o_typename (find (\<lambda>r. o_id r = i) (objects db))"

text \<open>
  \<open>INSERT INTO objects (id, last_update, typename) VALUES (:id, NULL, :typename)\<close>;
  \<open>id\<close> is the primary key.
\<close>

definition insert_object :: "ObjectId \<Rightarrow> Typename \<Rightarrow> database \<Rightarrow> error + database" where
  "insert_object i typename db =
     (if i \<in> set (map o_id (objects db))
      then Inl (SqliteError ''UNIQUE constraint failed: objects.id'')
      else Inr (db\<lparr>objects := objects db @
        [\<lparr>o_id = i, o_last_update = None, o_typename = typename\<rparr>]\<rparr>))"

text \<open>
  \<open>INSERT INTO connections (object_id, fieldname) VALUES (:id, :fieldname)\<close>: the
  other columns are NULL; \<open>UNIQUE(object_id, fieldname)\<close> and the foreign key
  \<open>object_id REFERENCES objects(id)\<close> are checked.
\<close>

definition insert_connection :: "ObjectId \<Rightarrow> Fieldname \<Rightarrow> database \<Rightarrow> error + database" where
  "insert_connection i fieldname db =
     (if (i, fieldname) \<in> set (map (\<lambda>c. (c_object_id c, c_fieldname c)) (connections db))
      then Inl (SqliteError
        ''UNIQUE constraint failed: connections.object_id, connections.fieldname'')
      else if i \<notin> set (map o_id (objects db))
      then Inl (SqliteError ''FOREIGN KEY constraint failed'')
      else Inr (db\<lparr>connections := connections db @
        [\<lparr>c_rowid = next_rowid (map c_rowid (connections db)),
          c_object_id = i, c_fieldname = fieldname,
          c_last_update = None, c_total_count = None,
          c_has_next_page = None, c_end_cursor = None\<rparr>]\<rparr>))"

fun addConnections ::
  "ObjectId \<Rightarrow> (Fieldname \<times> FieldType) list \<Rightarrow> database \<Rightarrow> unit result" where
  "addConnections i [] db = (Inr (), db)"
| "addConnections i ((fieldname, field) # rest) db =
     (case field of
        ID \<Rightarrow> addConnections i rest db
      | PRIMITIVE \<Rightarrow> addConnections i rest db
      | NODE t \<Rightarrow> addConnections i rest db
      | CONNECTION t \<Rightarrow>
          (case insert_connection i fieldname db of
             Inl e \<Rightarrow> (Inl e, db)
           | Inr db1 \<Rightarrow> addConnections i rest db1))"

definition inconsistentTypeMessage :: "ObjectId \<Rightarrow> Typename \<Rightarrow> Typename \<Rightarrow> string" where
  "inconsistentTypeMessage i existingTypename typename =
     ''Inconsistent type for ID '' @ JSON_stringify i @ '': '' @
     ''expected '' @ JSON_stringify existingTypename @
     '', got '' @ JSON_stringify typename"

text \<open>
  The schema is an ordinary object, and \<open>this._schema[typename]\<close> is a property
  lookup: when the schema has no key \<open>typename\<close> of its own, the lookup still finds the
  members that every object inherits from \<open>Object.prototype\<close>. Such a member is not
  \<open>null\<close> and has no property \<open>type\<close>, so the \<open>switch\<close> falls to its
  \<open>default\<close> branch, which throws \<open>new Error(undefined)\<close>, an error with the
  empty message.
\<close>

definition objectPrototypeMembers :: "string list" where
  "objectPrototypeMembers =
     [''constructor'', ''__defineGetter__'', ''__defineSetter__'', ''hasOwnProperty'',
      ''__lookupGetter__'', ''__lookupSetter__'', ''isPrototypeOf'', ''propertyIsEnumerable'',
      ''toString'', ''valueOf'', ''__proto__'', ''toLocaleString'']"

definition nontransactionallyRegisterObject ::
  "Schema \<Rightarrow> Typename \<Rightarrow> ObjectId \<Rightarrow> database \<Rightarrow> unit result" where
  "nontransactionallyRegisterObject schema typename i db =
     (case select_typename db i of
        Some existingTypename \<Rightarrow>
          if existingTypename = typename then (Inr (), db)
          else (Inl (InconsistentType (inconsistentTypeMessage i existingTypename typename)), db)
      | None \<Rightarrow>
          (case map_of schema typename of
             None \<Rightarrow>
               if typename \<in> set objectPrototypeMembers
               then (Inl (UnexpectedNodeType []), db)
               else (Inl (UnknownType (''Unknown type: '' @ JSON_stringify typename)), db)
           | Some (UNION clauses) \<Rightarrow>
               (Inl (AmbiguousType
                  (''Cannot add object of union type '' @ JSON_stringify typename @
                   ''; must specify the clause of the union'')), db)
           | Some (OBJECT flds) \<Rightarrow>
               (case insert_object i typename db of
                  Inl e \<Rightarrow> (Inl e, db)
                | Inr db1 \<Rightarrow> addConnections i flds db1)))"

definition registerObject :: "Schema \<Rightarrow> Typename \<Rightarrow> ObjectId \<Rightarrow> database \<Rightarrow> unit result" where
  "registerObject schema typename i db =
     run_inTransaction db (nontransactionallyRegisterObject schema typename i)"

subsection \<open>\<open>findOutdated\<close>\<close>

record outdated_object =
  oo_typename :: Typename
  oo_id :: ObjectId

record outdated_connection =
  oc_typename :: Typename
  oc_id :: ObjectId
  oc_fieldname :: Fieldname
  oc_endCursor :: "string option"

record outdated =
  out_objects :: "outdated_object list"
  out_connections :: "outdated_connection list"

text \<open>
  \<open>LEFT OUTER JOIN updates ON k = updates.rowid\<close> for one left row whose join column
  is \<open>k\<close>: the matching update rows, or one row of NULLs when there is none.
\<close>

definition left_outer_join_updates :: "update_row list \<Rightarrow> int option \<Rightarrow> update_row option list" where
  "left_outer_join_updates us k =
     (let ms = filter (\<lambda>u. Some (u_rowid u) = k) us
      in if ms = [] then [None] else map Some ms)"

text \<open>\<open>updates.time_epoch_millis < :timeEpochMillisThreshold\<close>; NULL is not true.\<close>

definition time_before :: "update_row option \<Rightarrow> int \<Rightarrow> bool" where
  "time_before u threshold =
     (case u of None \<Rightarrow> False | Some r \<Rightarrow> u_time_epoch_millis r < threshold)"

text \<open>A column used as a condition: true when it is neither NULL nor 0.\<close>

definition sql_true :: "int option \<Rightarrow> bool" where
  "sql_true v = (case v of None \<Rightarrow> False | Some n \<Rightarrow> n \<noteq> 0)"

definition select_outdated_objects :: "database \<Rightarrow> int \<Rightarrow> outdated_object list" where
  "select_outdated_objects db threshold =
     concat (map (\<lambda>obj.
       concat (map (\<lambda>u.
         if o_last_update obj = None \<or> time_before u threshold
         then [\<lparr>oo_typename = o_typename obj, oo_id = o_id obj\<rparr>] else [])
         (left_outer_join_updates (updates db) (o_last_update obj))))
       (objects db))"

definition select_outdated_connections :: "database \<Rightarrow> int \<Rightarrow> outdated_connection list" where
  "select_outdated_connections db threshold =
     concat (map (\<lambda>obj.
       concat (map (\<lambda>c.
         concat (map (\<lambda>u.
           if sql_true (c_has_next_page c) \<or> c_last_update c = None \<or> time_before u threshold
           then [\<lparr>oc_typename = o_typename obj, oc_id = o_id obj,
                  oc_fieldname = c_fieldname c, oc_endCursor = c_end_cursor c\<rparr>] else [])
           (left_outer_join_updates (updates db) (o_last_update obj))))
         (filter (\<lambda>c. o_id obj = c_object_id c) (connections db))))
       (objects db))"

definition findOutdated :: "int \<Rightarrow> database \<Rightarrow> outdated result" where
  "findOutdated since db =
     run_inTransaction db (\<lambda>db1.
       (Inr \<lparr>out_objects = select_outdated_objects db1 since,
             out_connections = select_outdated_connections db1 since\<rparr>, db1))"

subsection \<open>\<open>_queryShallow\<close>, \<open>_getEndCursor\<close>, \<open>_queryConnection\<close>\<close>

text \<open>
  Modelled from the spec: the query builder of src/graphql/queries.js, which is not under
  src/: \<open>field(name, args, children)\<close> and \<open>literal(scalar or null)\<close> build plain
  values. The arguments are in insertion order.
\<close>

datatype scalar = LNumber int | LString string | LNull

datatype Value = Literal scalar | Variable string

datatype Selection = Field string "(string \<times> Value) list" "Selection list"

text \<open>
  \<open>EndCursor | void\<close>: \<open>Undefined\<close> is JavaScript's \<open>undefined\<close>; an
  \<open>EndCursor\<close> is a string or \<open>null\<close>.
\<close>

datatype EndCursorOrVoid = Undefined | EndCursor "string option"

definition queryShallow :: "Selection list" where
  "queryShallow = [Field ''__typename'' [] [], Field ''id'' [] []]"

definition noSuchConnectionMessage :: "ObjectId \<Rightarrow> Fieldname \<Rightarrow> string" where
  "noSuchConnectionMessage objectId fieldname =
     ''No such connection: '' @ JSON_stringify objectId @ ''.'' @ JSON_stringify fieldname"

definition getEndCursor :: "ObjectId \<Rightarrow> Fieldname \<Rightarrow> database \<Rightarrow> error + EndCursorOrVoid" where
  "getEndCursor objectId fieldname db =
     (case find (\<lambda>c. c_object_id c = objectId \<and> c_fieldname c = fieldname) (connections db) of
        None \<Rightarrow> Inl (UnknownConnection (noSuchConnectionMessage objectId fieldname))
      | Some c \<Rightarrow>
          Inr (if c_last_update c \<noteq> None then EndCursor (c_end_cursor c) else Undefined))"

text \<open>The third parameter is optional: \<open>None\<close> is a call that leaves it out.\<close>

definition queryConnection :: "Fieldname \<Rightarrow> EndCursorOrVoid \<Rightarrow> int option \<Rightarrow> Selection list" where
  "queryConnection fieldname endCursorArg pageSizeArg =
     (let connectionPageSize = (case pageSizeArg of None \<Rightarrow> 100 | Some n \<Rightarrow> n);
          connectionArguments = [(''first'', Literal (LNumber connectionPageSize))];
          connectionArguments =
            (case endCursorArg of
               Undefined \<Rightarrow> connectionArguments
             | EndCursor c \<Rightarrow>
                 connectionArguments @
                 [(''after'', Literal (case c of None \<Rightarrow> LNull | Some s \<Rightarrow> LString s))])
      in [Field fieldname connectionArguments
            [Field ''totalCount'' [] [],
             Field ''pageInfo'' [] [Field ''endCursor'' [] [], Field ''hasNextPage'' [] []],
             Field ''nodes'' [] queryShallow]])"

subsection \<open>\<open>_updateConnection\<close>\<close>

record NodeFieldResult =
  n_typename :: Typename
  n_id :: ObjectId

record PageInfo =
  hasNextPage :: bool
  endCursor :: "string option"

record ConnectionFieldResult =
  totalCount :: int
  pageInfo :: PageInfo
  nodes :: "NodeFieldResult list"

text \<open>\<open>SELECT rowid FROM connections WHERE object_id = :objectId AND fieldname = :fieldname\<close>\<close>

definition select_connection_rowid :: "database \<Rightarrow> ObjectId \<Rightarrow> Fieldname \<Rightarrow> int option" where
  "select_connection_rowid db objectId fieldname =
     map_option c_rowid
       (find (\<lambda>c. c_object_id c = objectId \<and> c_fieldname c = fieldname) (connections db))"

text \<open>
  \<open>UPDATE connections SET last_update = :updateId, ... WHERE rowid = :connectionId\<close>;
  \<open>last_update REFERENCES updates(rowid)\<close> is checked for a row that is written.
\<close>

definition update_connection_row ::
  "int \<Rightarrow> UpdateId \<Rightarrow> int \<Rightarrow> int \<Rightarrow> string option \<Rightarrow> database \<Rightarrow> error + database" where
  "update_connection_row connectionId updateId cnt hasNext cursor db =
     (if connectionId \<in> set (map c_rowid (connections db)) \<and>
         updateId \<notin> set (map u_rowid (updates db))
      then Inl (SqliteError ''FOREIGN KEY constraint failed'')
      else Inr (db\<lparr>connections :=
        map (\<lambda>c. if c_rowid c = connectionId
                 then c\<lparr>c_last_update := Some updateId, c_total_count := Some cnt,
                        c_has_next_page := Some hasNext, c_end_cursor := cursor\<rparr>
                 else c) (connections db)\<rparr>))"

text \<open>
  \<open>SELECT IFNULL(MAX(idx), 0) + 1 FROM connection_entries WHERE connection_id = :connectionId\<close>
\<close>

definition select_next_index :: "database \<Rightarrow> int \<Rightarrow> int" where
  "select_next_index db connectionId =
     (let idxs = map e_idx (filter (\<lambda>e. e_connection_id e = connectionId) (connection_entries db))
      in (if idxs = [] then 0 else Max (set idxs)) + 1)"

text \<open>
  \<open>INSERT INTO connection_entries (connection_id, idx, child_id) VALUES (...)\<close> with
  \<open>UNIQUE(connection_id, idx)\<close> and both foreign keys.
\<close>

definition insert_entry :: "int \<Rightarrow> int \<Rightarrow> ObjectId \<Rightarrow> database \<Rightarrow> error + database" where
  "insert_entry connectionId idx childId db =
     (if (connectionId, idx) \<in> set (map (\<lambda>e. (e_connection_id e, e_idx e)) (connection_entries db))
      then Inl (SqliteError
        ''UNIQUE constraint failed: connection_entries.connection_id, connection_entries.idx'')
      else if connectionId \<notin> set (map c_rowid (connections db)) \<or>
              childId \<notin> set (map o_id (objects db))
      then Inl (SqliteError ''FOREIGN KEY constraint failed'')
      else Inr (db\<lparr>connection_entries := connection_entries db @
        [\<lparr>e_rowid = next_rowid (map e_rowid (connection_entries db)),
          e_connection_id = connectionId, e_idx = idx, e_child_id = childId\<rparr>]\<rparr>))"

text \<open>The loop over \<open>queryResult.nodes\<close>; \<open>nextIndex\<close> is its counter.\<close>

fun addEntries :: "Schema \<Rightarrow> int \<Rightarrow> int \<Rightarrow> NodeFieldResult list \<Rightarrow> database \<Rightarrow> unit result" where
  "addEntries schema connectionId nextIndex [] db = (Inr (), db)"
| "addEntries schema connectionId nextIndex (node # rest) db =
     (case nontransactionallyRegisterObject schema (n_typename node) (n_id node) db of
        (Inl e, db1) \<Rightarrow> (Inl e, db1)
      | (Inr u, db1) \<Rightarrow>
          (case insert_entry connectionId nextIndex (n_id node) db1 of
             Inl e \<Rightarrow> (Inl e, db1)
           | Inr db2 \<Rightarrow> addEntries schema connectionId (nextIndex + 1) rest db2))"

definition nontransactionallyUpdateConnection ::
  "Schema \<Rightarrow> UpdateId \<Rightarrow> ObjectId \<Rightarrow> Fieldname \<Rightarrow> ConnectionFieldResult \<Rightarrow> database \<Rightarrow> unit result" where
  "nontransactionallyUpdateConnection schema updateId objectId fieldname queryResult db =
     (case select_connection_rowid db objectId fieldname of
        None \<Rightarrow> (Inl (UnknownConnection (noSuchConnectionMessage objectId fieldname)), db)
      | Some connectionId \<Rightarrow>
          (case update_connection_row connectionId updateId (totalCount queryResult)
                  (if hasNextPage (pageInfo queryResult) then 1 else 0)
                  (endCursor (pageInfo queryResult)) db of
             Inl e \<Rightarrow> (Inl e, db)
           | Inr db1 \<Rightarrow>
               addEntries schema connectionId (select_next_index db1 connectionId)
                 (nodes queryResult) db1))"

definition updateConnection ::
  "Schema \<Rightarrow> UpdateId \<Rightarrow> ObjectId \<Rightarrow> Fieldname \<Rightarrow> ConnectionFieldResult \<Rightarrow> database \<Rightarrow> unit result" where
  "updateConnection schema updateId objectId fieldname queryResult db =
     run_inTransaction db
       (nontransactionallyUpdateConnection schema updateId objectId fieldname queryResult)"

subsection \<open>The schema fingerprint\<close>

datatype json =
    JNull
  | JBool bool
  | JString string
  | JArray "json list"
  | JObject "(string \<times> json) list"

fun join :: "string \<Rightarrow> string list \<Rightarrow> string" where
  "join sep [] = []"
| "join sep [x] = x"
| "join sep (x # y # ys) = x @ sep @ join sep (y # ys)"

text \<open>
  Modelled from the spec: the canonical (key-sorted) JSON encoding, the package
  json-stable-stringify, which is not under src/. Strings and keys are written by
  \<open>JSON.stringify\<close>, the members of an object in the order of their keys, with no
  white space. Numbers do not occur in a schema and are left out of \<open>json\<close>.
\<close>

fun stringify :: "json \<Rightarrow> string" where
  "stringify JNull = ''null''"
| "stringify (JBool b) = (if b then ''true'' else ''false'')"
| "stringify (JString s) = JSON_stringify s"
| "stringify (JArray xs) = ''['' @ join '','' (map stringify xs) @ '']''"
| "stringify (JObject kvs) =
     ''{'' @ join '',''
       (map (\<lambda>(k, v). JSON_stringify k @ '':'' @ v)
         (sort_key fst (map (\<lambda>(k, v). (k, stringify v)) kvs))) @ ''}''"

text \<open>
  Modelled from the spec: the JavaScript values that src/graphql/schema.js (not under
  src/) builds for a schema; \<open>type\<close> and \<open>fields\<close> are the properties the mirror
  reads.
\<close>

fun FieldType_json :: "FieldType \<Rightarrow> json" where
  "FieldType_json ID = JObject [(''type'', JString ''ID'')]"
| "FieldType_json PRIMITIVE = JObject [(''type'', JString ''PRIMITIVE'')]"
| "FieldType_json (NODE t) = JObject [(''type'', JString ''NODE''), (''elementType'', JString t)]"
| "FieldType_json (CONNECTION t) =
     JObject [(''type'', JString ''CONNECTION''), (''elementType'', JString t)]"

fun NodeType_json :: "NodeType \<Rightarrow> json" where
  "NodeType_json (OBJECT flds) =
     JObject [(''type'', JString ''OBJECT''),
              (''fields'', JObject (map (\<lambda>(f, t). (f, FieldType_json t)) flds))]"
| "NodeType_json (UNION clauses) =
     JObject [(''type'', JString ''UNION''),
              (''clauses'', JObject (map (\<lambda>t. (t, JBool True)) clauses))]"

definition Schema_json :: "Schema \<Rightarrow> json" where
  "Schema_json schema = JObject (map (\<lambda>(t, n). (t, NodeType_json n)) schema)"

definition schemaBlob :: "string \<Rightarrow> Schema \<Rightarrow> string" where
  "schemaBlob version schema =
     stringify (JObject [(''version'', JString version), (''schema'', Schema_json schema)])"

definition MIRROR_VERSION :: string where
  "MIRROR_VERSION = ''MIRROR_v1''"

subsection \<open>\<open>_initialize\<close>\<close>

definition isSqlSafeChar :: "char \<Rightarrow> bool" where
  "isSqlSafeChar c =
     ((CHR ''A'' \<le> c \<and> c \<le> CHR ''Z'') \<or> (CHR ''a'' \<le> c \<and> c \<le> CHR ''z'') \<or>
      (CHR ''0'' \<le> c \<and> c \<le> CHR ''9'') \<or> c = CHR ''_'')"

definition isSqlSafe :: "string \<Rightarrow> bool" where
  "isSqlSafe token = list_all isSqlSafeChar token"

text \<open>The database compares the names of tables, indices and columns without case (ASCII).\<close>

definition sql_lower :: "string \<Rightarrow> string" where
  "sql_lower name =
     map (\<lambda>c. if CHR ''A'' \<le> c \<and> c \<le> CHR ''Z'' then char_of (of_char c + (32::nat)) else c) name"

definition name_exists :: "database \<Rightarrow> string \<Rightarrow> bool" where
  "name_exists db name = (sql_lower name \<in> set (map (\<lambda>e. sql_lower (entry_name e)) (catalog db)))"

text \<open>
  \<open>CREATE TABLE\<close> and \<open>CREATE INDEX\<close>: an error when the name is taken, or when
  two columns of a new table have the same name.
\<close>

definition create_entry :: "catalog_entry \<Rightarrow> database \<Rightarrow> error + database" where
  "create_entry entry db =
     (if name_exists db (entry_name entry)
      then Inl (SqliteError (entry_name entry @ '' already exists''))
      else if (case entry of Table name columns \<Rightarrow> \<not> distinct (map sql_lower columns)
                           | Index name table columns \<Rightarrow> False)
      then Inl (SqliteError ''duplicate column name'')
      else Inr (db\<lparr>catalog := catalog db @ [entry]\<rparr>))"

definition metaTable :: catalog_entry where
  "metaTable = Table ''meta'' [''zero'', ''schema'']"

text \<open>\<open>CREATE TABLE IF NOT EXISTS meta (...)\<close>\<close>

definition create_meta_if_not_exists :: "database \<Rightarrow> database" where
  "create_meta_if_not_exists db =
     (if name_exists db ''meta'' then db else db\<lparr>catalog := catalog db @ [metaTable]\<rparr>)"

text \<open>\<open>SELECT schema FROM meta\<close>, plucked, first row.\<close>

definition select_meta_schema :: "database \<Rightarrow> string option" where
  "select_meta_schema db = (case meta db of [] \<Rightarrow> None | (zero, blob) # rest \<Rightarrow> Some blob)"

text \<open>\<open>INSERT INTO meta (zero, schema) VALUES (0, ?)\<close>; \<open>zero\<close> is the primary key.\<close>

definition insert_meta :: "string \<Rightarrow> database \<Rightarrow> error + database" where
  "insert_meta blob db =
     (if 0 \<in> set (map fst (meta db))
      then Inl (SqliteError ''UNIQUE constraint failed: meta.zero'')
      else Inr (db\<lparr>meta := meta db @ [(0, blob)]\<rparr>))"

definition structuralTables :: "catalog_entry list" where
  "structuralTables =
     [Table ''updates'' [''rowid'', ''time_epoch_millis''],
      Table ''objects'' [''id'', ''last_update'', ''typename''],
      Table ''links'' [''rowid'', ''parent_id'', ''fieldname'', ''child_id''],
      Index ''idx_links__parent_id__fieldname'' ''links'' [''parent_id'', ''fieldname''],
      Table ''connections''
        [''rowid'', ''object_id'', ''fieldname'', ''last_update'', ''total_count'',
         ''has_next_page'', ''end_cursor''],
      Index ''idx_connections__object_id__fieldname'' ''connections''
        [''object_id'', ''fieldname''],
      Table ''connection_entries'' [''rowid'', ''connection_id'', ''idx'', ''child_id''],
      Index ''idx_connection_entries__connection_id'' ''connection_entries''
        [''connection_id'']]"

fun createAll :: "catalog_entry list \<Rightarrow> database \<Rightarrow> unit result" where
  "createAll [] db = (Inr (), db)"
| "createAll (sql # rest) db =
     (case create_entry sql db of
        Inl e \<Rightarrow> (Inl e, db)
      | Inr db1 \<Rightarrow> createAll rest db1)"

text \<open>The inner loop over the fields of an object type: its primitive field names.\<close>

fun primitiveFieldNames :: "(Fieldname \<times> FieldType) list \<Rightarrow> error + Fieldname list" where
  "primitiveFieldNames [] = Inr []"
| "primitiveFieldNames ((fieldname, field) # rest) =
     (case field of
        ID \<Rightarrow> primitiveFieldNames rest
      | NODE t \<Rightarrow> primitiveFieldNames rest
      | CONNECTION t \<Rightarrow> primitiveFieldNames rest
      | PRIMITIVE \<Rightarrow>
          if \<not> isSqlSafe fieldname
          then Inl (UnsafeIdentifier (''invalid field name: '' @ fieldname))
          else (case primitiveFieldNames rest of
                  Inl e \<Rightarrow> Inl e
                | Inr names \<Rightarrow> Inr (fieldname # names)))"

definition dataTable :: "Typename \<Rightarrow> Fieldname list \<Rightarrow> catalog_entry" where
  "dataTable typename names = Table (''data_'' @ typename) (''id'' # names)"

text \<open>The loop over \<open>Object.keys(schema)\<close>.\<close>

fun createDataTables :: "Schema \<Rightarrow> database \<Rightarrow> unit result" where
  "createDataTables [] db = (Inr (), db)"
| "createDataTables ((typename, nodeType) # rest) db =
     (case nodeType of
        UNION clauses \<Rightarrow> createDataTables rest db
      | OBJECT flds \<Rightarrow>
          if \<not> isSqlSafe typename
          then (Inl (UnsafeIdentifier (''invalid object type name: '' @ typename)), db)
          else (case primitiveFieldNames flds of
                  Inl e \<Rightarrow> (Inl e, db)
                | Inr names \<Rightarrow>
                    (case create_entry (dataTable typename names) db of
                       Inl e \<Rightarrow> (Inl e, db)
                     | Inr db1 \<Rightarrow> createDataTables rest db1)))"

definition initialize_with :: "string \<Rightarrow> Schema \<Rightarrow> database \<Rightarrow> unit result" where
  "initialize_with version schema db =
     (let blob = schemaBlob version schema in
      run_inTransaction db (\<lambda>db0.
        let db1 = create_meta_if_not_exists db0 in
        case select_meta_schema db1 of
          Some existingBlob \<Rightarrow>
            if existingBlob = blob then (Inr (), db1)
            else (Inl (IncompatibleSchema
                    ''Database already populated with incompatible schema or version''), db1)
        | None \<Rightarrow>
            (case insert_meta blob db1 of
               Inl e \<Rightarrow> (Inl e, db1)
             | Inr db2 \<Rightarrow>
                 (case createAll structuralTables db2 of
                    (Inl e, db3) \<Rightarrow> (Inl e, db3)
                  | (Inr u, db3) \<Rightarrow> createDataTables schema db3))))"

text \<open>\<open>_initialize\<close>, with the version string it has in the source.\<close>

definition initialize :: "Schema \<Rightarrow> database \<Rightarrow> unit result" where
  "initialize schema db = initialize_with MIRROR_VERSION schema db"

text \<open>
  \<open>new Mirror(db, schema)\<close>. The two \<open>null\<close> checks of the constructor have no
  counterpart: a \<open>database\<close> and a \<open>Schema\<close> are never \<open>null\<close>.
\<close>

definition Mirror :: "database \<Rightarrow> Schema \<Rightarrow> unit result" where
  "Mirror db schema = initialize schema db"

definition empty_database :: database where
  "empty_database =
     \<lparr>inTransaction = False, catalog = [], meta = [], updates = [], objects = [],
      connections = [], connection_entries = []\<rparr>"

subsection \<open>Sequences of operations\<close>

datatype operation =
    Construct
  | RegisterObject Typename ObjectId
  | CreateUpdate int
  | FindOutdated int
  | UpdateConnection UpdateId ObjectId Fieldname ConnectionFieldResult

text \<open>The store after one call on a mirror of \<open>schema\<close>, whether it returned or threw.\<close>

fun apply_operation :: "Schema \<Rightarrow> operation \<Rightarrow> database \<Rightarrow> database" where
  "apply_operation schema Construct db = snd (Mirror db schema)"
| "apply_operation schema (RegisterObject typename i) db = snd (registerObject schema typename i db)"
| "apply_operation schema (CreateUpdate t) db = snd (createUpdate t db)"
| "apply_operation schema (FindOutdated since) db = snd (findOutdated since db)"
| "apply_operation schema (UpdateConnection updateId objectId fieldname queryResult) db =
     snd (updateConnection schema updateId objectId fieldname queryResult db)"

text \<open>
  The stores a mirror can be in: it was constructed on an empty store, and only its
  operations have written to the store since.
\<close>

inductive mirror_store :: "Schema \<Rightarrow> database \<Rightarrow> bool" for schema :: Schema where
  constructed: "Mirror empty_database schema = (Inr (), db) \<Longrightarrow> mirror_store schema db"
| operated: "mirror_store schema db \<Longrightarrow> mirror_store schema (apply_operation schema op db)"

subsection \<open>The store that a first construction leaves\<close>

definition primitiveNames :: "(Fieldname \<times> FieldType) list \<Rightarrow> Fieldname list" where
  "primitiveNames flds = map fst (filter (\<lambda>(f, t). t = PRIMITIVE) flds)"

definition connectionNames :: "(Fieldname \<times> FieldType) list \<Rightarrow> Fieldname list" where
  "connectionNames flds =
     map fst (filter (\<lambda>(f, t). case t of CONNECTION e \<Rightarrow> True | _ \<Rightarrow> False) flds)"

fun dataTables :: "Schema \<Rightarrow> catalog_entry list" where
  "dataTables [] = []"
| "dataTables ((typename, OBJECT flds) # rest) =
     dataTable typename (primitiveNames flds) # dataTables rest"
| "dataTables ((typename, UNION clauses) # rest) = dataTables rest"

text \<open>
  The tables of \<open>_initialize\<close>, all empty but for the fingerprint in \<open>meta\<close>.
\<close>

definition initialized_store :: "string \<Rightarrow> Schema \<Rightarrow> database" where
  "initialized_store version schema =
     \<lparr>inTransaction = False,
      catalog = metaTable # structuralTables @ dataTables schema,
      meta = [(0, schemaBlob version schema)],
      updates = [], objects = [], connections = [], connection_entries = []\<rparr>"


subsection \<open>Example stores\<close>

text \<open>The schema of mirror.test.js.\<close>

definition githubSchema :: Schema where
  "githubSchema =
     [(''Repository'', OBJECT [(''id'', ID), (''url'', PRIMITIVE),
         (''issues'', CONNECTION ''Issue'')]),
      (''Issue'', OBJECT [(''id'', ID), (''url'', PRIMITIVE), (''author'', NODE ''Actor''),
         (''parent'', NODE ''Repository''), (''title'', PRIMITIVE),
         (''comments'', CONNECTION ''IssueComment'')]),
      (''IssueComment'', OBJECT [(''id'', ID), (''body'', PRIMITIVE),
         (''author'', NODE ''Actor'')]),
      (''Actor'', UNION [''User'', ''Bot'', ''Organization'']),
      (''User'', OBJECT [(''id'', ID), (''url'', PRIMITIVE), (''login'', PRIMITIVE)]),
      (''Bot'', OBJECT [(''id'', ID), (''url'', PRIMITIVE), (''login'', PRIMITIVE)]),
      (''Organization'', OBJECT [(''id'', ID), (''url'', PRIMITIVE), (''login'', PRIMITIVE)])]"

text \<open>
  The store of the test "rejects if an existing object's typename were to change", after
  its first \<open>registerObject\<close>.
\<close>

definition store_S4 :: database where
  "store_S4 =
     (initialized_store MIRROR_VERSION githubSchema)
       \<lparr>objects := [\<lparr>o_id = ''my-favorite-id'', o_last_update = None, o_typename = ''Issue''\<rparr>],
        connections :=
          [\<lparr>c_rowid = 1, c_object_id = ''my-favorite-id'', c_fieldname = ''comments'',
            c_last_update = None, c_total_count = None, c_has_next_page = None,
            c_end_cursor = None\<rparr>]\<rparr>"

text \<open>
  The store of the test "finds the right objects and connections" of mirror.test.js, which
  sets \<open>last_update\<close>, \<open>has_next_page\<close> and \<open>end_cursor\<close> by hand.
\<close>

definition scenario_S5 :: database where
  "scenario_S5 =
     (initialized_store MIRROR_VERSION githubSchema)
     \<lparr>updates :=
        [\<lparr>u_rowid = 1, u_time_epoch_millis = 123\<rparr>,
         \<lparr>u_rowid = 2, u_time_epoch_millis = 456\<rparr>,
         \<lparr>u_rowid = 3, u_time_epoch_millis = 789\<rparr>],
      objects :=
        [\<lparr>o_id = ''repo:ab/cd'', o_last_update = Some 1, o_typename = ''Repository''\<rparr>,
         \<lparr>o_id = ''issue:ab/cd#1'', o_last_update = Some 3, o_typename = ''Issue''\<rparr>,
         \<lparr>o_id = ''issue:ab/cd#2'', o_last_update = None, o_typename = ''Issue''\<rparr>,
         \<lparr>o_id = ''issue:ab/cd#3'', o_last_update = None, o_typename = ''Issue''\<rparr>,
         \<lparr>o_id = ''issue:ab/cd#4'', o_last_update = Some 2, o_typename = ''Issue''\<rparr>],
      connections :=
        [\<lparr>c_rowid = 1, c_object_id = ''repo:ab/cd'', c_fieldname = ''issues'',
          c_last_update = Some 1, c_total_count = None, c_has_next_page = Some 0,
          c_end_cursor = Some ''cursor:repo.issues''\<rparr>,
         \<lparr>c_rowid = 2, c_object_id = ''issue:ab/cd#1'', c_fieldname = ''comments'',
          c_last_update = None, c_total_count = None, c_has_next_page = Some 0,
          c_end_cursor = Some ''cursor:issue1.comments''\<rparr>,
         \<lparr>c_rowid = 3, c_object_id = ''issue:ab/cd#2'', c_fieldname = ''comments'',
          c_last_update = Some 3, c_total_count = None, c_has_next_page = Some 1,
          c_end_cursor = None\<rparr>,
         \<lparr>c_rowid = 4, c_object_id = ''issue:ab/cd#3'', c_fieldname = ''comments'',
          c_last_update = Some 3, c_total_count = None, c_has_next_page = Some 0,
          c_end_cursor = None\<rparr>,
         \<lparr>c_rowid = 5, c_object_id = ''issue:ab/cd#4'', c_fieldname = ''comments'',
          c_last_update = Some 2, c_total_count = None, c_has_next_page = Some 0,
          c_end_cursor = Some ''cursor:issue4.comments''\<rparr>]\<rparr>"

subsection \<open>Predicates and devices of the proofs\<close>

definition unfetched :: "connection_row \<Rightarrow> bool" where
  "unfetched c = (c_last_update c = None \<and> c_total_count c = None \<and>
      c_has_next_page c = None \<and> c_end_cursor c = None)"

definition connection_key :: "connection_row \<Rightarrow> ObjectId \<times> Fieldname" where
  "connection_key c = (c_object_id c, c_fieldname c)"

definition inv_keys :: "database \<Rightarrow> bool" where
  "inv_keys db =
     (distinct (map o_id (objects db)) \<and> distinct (map c_rowid (connections db)) \<and>
      distinct (map connection_key (connections db)) \<and>
      (\<forall>c \<in> set (connections db). c_object_id c \<in> set (map o_id (objects db))))"

definition inv_fields :: "Schema \<Rightarrow> database \<Rightarrow> bool" where
  "inv_fields schema db =
     (\<forall>obj \<in> set (objects db). \<exists>flds.
        map_of schema (o_typename obj) = Some (OBJECT flds) \<and>
        map c_fieldname (filter (\<lambda>c. c_object_id c = o_id obj) (connections db)) =
          connectionNames flds)"

definition inv_unfetched :: "database \<Rightarrow> bool" where
  "inv_unfetched db = (\<forall>c \<in> set (connections db). c_last_update c = None \<longrightarrow> unfetched c)"

definition entry_indices :: "database \<Rightarrow> int \<Rightarrow> int list" where
  "entry_indices db connectionId =
     map e_idx (filter (\<lambda>e. e_connection_id e = connectionId) (connection_entries db))"

definition inv_entries :: "database \<Rightarrow> bool" where
  "inv_entries db =
     (\<forall>connectionId. entry_indices db connectionId =
        [1..int (length (entry_indices db connectionId))])"

definition rows_inv :: "Schema \<Rightarrow> database \<Rightarrow> bool" where
  "rows_inv schema db = (inv_keys db \<and> inv_fields schema db \<and> inv_unfetched db \<and> inv_entries db)"

definition fetched_row ::
  "int \<Rightarrow> UpdateId \<Rightarrow> int \<Rightarrow> int \<Rightarrow> string option \<Rightarrow> connection_row \<Rightarrow> connection_row" where
  "fetched_row connectionId updateId cnt hasNext cursor c =
     (if c_rowid c = connectionId
      then c\<lparr>c_last_update := Some updateId, c_total_count := Some cnt,
             c_has_next_page := Some hasNext, c_end_cursor := cursor\<rparr>
      else c)"

definition hasNextPageColumn :: "ConnectionFieldResult \<Rightarrow> int" where
  "hasNextPageColumn q = (if hasNextPage (pageInfo q) then 1 else 0)"

definition same_rows :: "database \<Rightarrow> database \<Rightarrow> bool" where
  "same_rows db db' =
     (inTransaction db' = inTransaction db \<and> updates db' = updates db \<and>
      objects db' = objects db \<and> connections db' = connections db \<and>
      connection_entries db' = connection_entries db)"

definition lname :: "catalog_entry \<Rightarrow> string" where
  "lname e = sql_lower (entry_name e)"

definition columns_ok :: "catalog_entry \<Rightarrow> bool" where
  "columns_ok entry =
     (case entry of Table name columns \<Rightarrow> distinct (map sql_lower columns)
                  | Index name table columns \<Rightarrow> True)"

text \<open>Every object type name and every primitive field name of the schema is SQL-safe.\<close>

definition identifiersSafe :: "Schema \<Rightarrow> bool" where
  "identifiersSafe schema =
     list_all (\<lambda>(typename, nodeType).
        case nodeType of
          OBJECT flds \<Rightarrow> isSqlSafe typename \<and> list_all isSqlSafe (primitiveNames flds)
        | UNION clauses \<Rightarrow> True) schema"

text \<open>
  The names of the tables, and of the columns of each data table, are distinct without
  case.
\<close>

definition namesDistinct :: "Schema \<Rightarrow> bool" where
  "namesDistinct schema =
     (list_all columns_ok (dataTables schema) \<and>
      distinct (map lname (metaTable # structuralTables @ dataTables schema)))"

definition sqlSafeSchema :: "Schema \<Rightarrow> bool" where
  "sqlSafeSchema schema = (identifiersSafe schema \<and> namesDistinct schema)"

text \<open>
  The error is one of the two that \<open>_initialize\<close> throws for a name that is not SQL-safe,
  and names an object type or a primitive field of the schema that is not SQL-safe.
\<close>

definition unsafeIdentifierError :: "Schema \<Rightarrow> error \<Rightarrow> bool" where
  "unsafeIdentifierError schema e =
     list_ex (\<lambda>(typename, nodeType).
        case nodeType of
          OBJECT flds \<Rightarrow>
            (\<not> isSqlSafe typename \<and>
             e = UnsafeIdentifier (''invalid object type name: '' @ typename)) \<or>
            list_ex (\<lambda>f. \<not> isSqlSafe f \<and> e = UnsafeIdentifier (''invalid field name: '' @ f))
              (primitiveNames flds)
        | UNION clauses \<Rightarrow> False) schema"



definition store_two_repos :: database where
  "store_two_repos =
     (initialized_store MIRROR_VERSION githubSchema)
       \<lparr>updates := [\<lparr>u_rowid = 1, u_time_epoch_millis = 100\<rparr>],
        objects :=
          [\<lparr>o_id = ''repo:a'', o_last_update = None, o_typename = ''Repository''\<rparr>,
           \<lparr>o_id = ''repo:b'', o_last_update = None, o_typename = ''Repository''\<rparr>],
        connections :=
          [\<lparr>c_rowid = 1, c_object_id = ''repo:a'', c_fieldname = ''issues'',
            c_last_update = None, c_total_count = None, c_has_next_page = None,
            c_end_cursor = None\<rparr>,
           \<lparr>c_rowid = 2, c_object_id = ''repo:b'', c_fieldname = ''issues'',
            c_last_update = Some 1, c_total_count = Some 5, c_has_next_page = Some 1,
            c_end_cursor = None\<rparr>]\<rparr>"

definition owner_rows :: "database \<Rightarrow> ObjectId \<Rightarrow> (int \<times> ObjectId \<times> Fieldname) list" where
  "owner_rows db i =
     map (\<lambda>c. (c_rowid c, c_object_id c, c_fieldname c))
       (filter (\<lambda>c. c_object_id c = i) (connections db))"


subsection \<open>More example stores\<close>



definition schema_A :: Schema where
  "schema_A = [(''A'', OBJECT [(''id'', ID)])]"

definition schema_B :: Schema where
  "schema_B = [(''B'', OBJECT [(''id'', ID)])]"



definition store_fetched :: database where
  "store_fetched =
     (let db1 = snd (registerObject githubSchema ''Repository'' ''repo:ab/cd''
                  (initialized_store MIRROR_VERSION githubSchema));
          (updateId, db2) = createUpdate 100 db1
      in snd (updateConnection githubSchema updateId ''repo:ab/cd'' ''issues''
            \<lparr>totalCount = 0, pageInfo = \<lparr>hasNextPage = False, endCursor = None\<rparr>, nodes = []\<rparr>
            db2))"

section \<open>Properties\<close>

subsection \<open>Auxiliary facts\<close>

lemma distinct_map_eq:
  "distinct (map f xs) \<Longrightarrow> x \<in> set xs \<Longrightarrow> y \<in> set xs \<Longrightarrow> f x = f y \<Longrightarrow> x = y"
  by (meson distinct_map inj_onD)

lemma loj_set:
  "set (left_outer_join_updates us k) =
     (if \<exists>u \<in> set us. Some (u_rowid u) = k
      then Some ` {u \<in> set us. Some (u_rowid u) = k} else {None})"
  by (auto simp: left_outer_join_updates_def Let_def filter_empty_conv)

lemma loj_stale:
  "(\<exists>u \<in> set (left_outer_join_updates us k). P \<or> time_before u t) \<longleftrightarrow>
     (P \<or> (\<exists>u \<in> set us. k = Some (u_rowid u) \<and> u_time_epoch_millis u < t))"
proof (cases "\<exists>u \<in> set us. Some (u_rowid u) = k")
  case True
  then show ?thesis by (auto simp: loj_set time_before_def)
next
  case False
  then show ?thesis by (auto simp: loj_set time_before_def)
qed

lemma in_select_outdated_objects:
  "x \<in> set (select_outdated_objects db since) \<longleftrightarrow>
     (\<exists>obj \<in> set (objects db). x = \<lparr>oo_typename = o_typename obj, oo_id = o_id obj\<rparr> \<and>
        (\<exists>u \<in> set (left_outer_join_updates (updates db) (o_last_update obj)).
           o_last_update obj = None \<or> time_before u since))"
  by (auto simp: select_outdated_objects_def split: if_splits)

lemma set_select_outdated_objects:
  "set (select_outdated_objects db since) =
     (\<lambda>obj. \<lparr>oo_typename = o_typename obj, oo_id = o_id obj\<rparr>) `
       {obj \<in> set (objects db). o_last_update obj = None \<or>
          (\<exists>u \<in> set (updates db).
             o_last_update obj = Some (u_rowid u) \<and> u_time_epoch_millis u < since)}"
  unfolding set_eq_iff in_select_outdated_objects loj_stale by blast

lemma findOutdated_run:
  "\<not> inTransaction db \<Longrightarrow>
   findOutdated since db =
     (Inr \<lparr>out_objects = select_outdated_objects db since,
           out_connections = select_outdated_connections db since\<rparr>, db)"
  by (simp add: findOutdated_def run_inTransaction_def select_outdated_objects_def
      select_outdated_connections_def)

subsection \<open>Stale objects\<close>

text \<open>
  C5. Outside a transaction, \<open>findOutdated(since)\<close> returns, leaving the store as it
  was, and its \<open>objects\<close> are exactly the rows of \<open>objects\<close> whose \<open>last_update\<close>
  is NULL or is the rowid of an update with \<open>time_epoch_millis < since\<close>. Where ids and
  update rowids are unique (they are primary keys), an object whose update has
  \<open>time_epoch_millis = since\<close> is not returned.
\<close>

theorem findOutdated_objects_exact:
  assumes "\<not> inTransaction db"
  shows "\<exists>r. findOutdated since db = (Inr r, db) \<and>
     set (out_objects r) =
       (\<lambda>obj. \<lparr>oo_typename = o_typename obj, oo_id = o_id obj\<rparr>) `
         {obj \<in> set (objects db). o_last_update obj = None \<or>
            (\<exists>u \<in> set (updates db).
               o_last_update obj = Some (u_rowid u) \<and> u_time_epoch_millis u < since)} \<and>
     (distinct (map o_id (objects db)) \<and> distinct (map u_rowid (updates db)) \<longrightarrow>
        (\<forall>obj \<in> set (objects db). \<forall>u \<in> set (updates db).
           o_last_update obj = Some (u_rowid u) \<and> u_time_epoch_millis u = since \<longrightarrow>
           \<lparr>oo_typename = o_typename obj, oo_id = o_id obj\<rparr> \<notin> set (out_objects r)))"
proof -
  let ?r = "\<lparr>out_objects = select_outdated_objects db since,
             out_connections = select_outdated_connections db since\<rparr>"
  have run: "findOutdated since db = (Inr ?r, db)"
    using assms by (rule findOutdated_run)
  have equal: "\<lparr>oo_typename = o_typename obj, oo_id = o_id obj\<rparr> \<notin> set (out_objects ?r)"
    if d: "distinct (map o_id (objects db))" "distinct (map u_rowid (updates db))"
      and obj: "obj \<in> set (objects db)" and u: "u \<in> set (updates db)"
      and lu: "o_last_update obj = Some (u_rowid u)" and t: "u_time_epoch_millis u = since"
    for obj u
  proof
    assume "\<lparr>oo_typename = o_typename obj, oo_id = o_id obj\<rparr> \<in> set (out_objects ?r)"
    then have "\<exists>obj' \<in> set (objects db). o_id obj' = o_id obj \<and>
         (o_last_update obj' = None \<or>
            (\<exists>u \<in> set (updates db).
               o_last_update obj' = Some (u_rowid u) \<and> u_time_epoch_millis u < since))"
      by (auto simp: set_select_outdated_objects)
    then obtain obj' where o': "obj' \<in> set (objects db)" "o_id obj' = o_id obj"
      and st: "o_last_update obj' = None \<or>
            (\<exists>u \<in> set (updates db).
               o_last_update obj' = Some (u_rowid u) \<and> u_time_epoch_millis u < since)"
      by blast
    have "obj' = obj" using distinct_map_eq [OF d(1) o'(1) obj o'(2)] .
    with st lu obtain u' where u': "u' \<in> set (updates db)" "u_rowid u' = u_rowid u"
      "u_time_epoch_millis u' < since"
      by auto
    have "u' = u" using distinct_map_eq [OF d(2) u'(1) u u'(2)] .
    with u'(3) t show False by simp
  qed
  show ?thesis
    unfolding run using equal by (intro exI [of _ ?r]) (simp add: set_select_outdated_objects)
qed

theorem findOutdated_objects_exact_witness:
  "\<not> inTransaction scenario_S5 \<and>
   distinct (map o_id (objects scenario_S5)) \<and>
   distinct (map u_rowid (updates scenario_S5)) \<and>
   (\<exists>r. findOutdated 456 scenario_S5 = (Inr r, scenario_S5) \<and>
      out_objects r =
        [\<lparr>oo_typename = ''Repository'', oo_id = ''repo:ab/cd''\<rparr>,
         \<lparr>oo_typename = ''Issue'', oo_id = ''issue:ab/cd#2''\<rparr>,
         \<lparr>oo_typename = ''Issue'', oo_id = ''issue:ab/cd#3''\<rparr>] \<and>
      \<lparr>oo_typename = ''Issue'', oo_id = ''issue:ab/cd#4''\<rparr> \<notin> set (out_objects r))"
proof -
  let ?obj = "\<lparr>o_id = ''issue:ab/cd#4'', o_last_update = Some 2, o_typename = ''Issue''\<rparr>"
  let ?u = "\<lparr>u_rowid = 2, u_time_epoch_millis = 456\<rparr>"
  have h: "\<not> inTransaction scenario_S5" by (simp add: scenario_S5_def initialized_store_def)
  have d1: "distinct (map o_id (objects scenario_S5))" by (simp add: scenario_S5_def initialized_store_def)
  have d2: "distinct (map u_rowid (updates scenario_S5))" by (simp add: scenario_S5_def initialized_store_def)
  have m: "?obj \<in> set (objects scenario_S5)" "?u \<in> set (updates scenario_S5)"
    by (simp_all add: scenario_S5_def initialized_store_def)
  have e: "select_outdated_objects scenario_S5 456 =
        [\<lparr>oo_typename = ''Repository'', oo_id = ''repo:ab/cd''\<rparr>,
         \<lparr>oo_typename = ''Issue'', oo_id = ''issue:ab/cd#2''\<rparr>,
         \<lparr>oo_typename = ''Issue'', oo_id = ''issue:ab/cd#3''\<rparr>]"
    by (simp add: scenario_S5_def initialized_store_def select_outdated_objects_def
        left_outer_join_updates_def
        time_before_def)
  from findOutdated_objects_exact [OF h, of 456] obtain r where
    r: "findOutdated 456 scenario_S5 = (Inr r, scenario_S5)"
    and n: "distinct (map o_id (objects scenario_S5)) \<and>
         distinct (map u_rowid (updates scenario_S5)) \<longrightarrow>
        (\<forall>obj \<in> set (objects scenario_S5). \<forall>u \<in> set (updates scenario_S5).
           o_last_update obj = Some (u_rowid u) \<and> u_time_epoch_millis u = 456 \<longrightarrow>
           \<lparr>oo_typename = o_typename obj, oo_id = o_id obj\<rparr> \<notin> set (out_objects r))"
    by blast
  from n d1 d2 m have "\<lparr>oo_typename = o_typename ?obj, oo_id = o_id ?obj\<rparr> \<notin> set (out_objects r)"
    by fastforce
  then have n4: "\<lparr>oo_typename = ''Issue'', oo_id = ''issue:ab/cd#4''\<rparr> \<notin> set (out_objects r)"
    by simp
  from r have o: "out_objects r = select_outdated_objects scenario_S5 456"
    using h by (auto simp: findOutdated_run)
  show ?thesis
    by (intro conjI exI [of _ r]) (rule h d1 d2 r n4 o [unfolded e])+
qed

subsection \<open>Auxiliary facts on registration\<close>


lemma sublist_mid: "sublist x (a @ x @ b)"
  by (rule sublist_appendI)



lemma select_typename_flag [simp]:
  "select_typename (db\<lparr>inTransaction := b\<rparr>) i = select_typename db i"
  by (simp add: select_typename_def)

lemma insert_connection_flag:
  "insert_connection i f db = Inr db' \<Longrightarrow> inTransaction db' = inTransaction db"
  by (auto simp: insert_connection_def split: if_splits)

lemma addConnections_flag:
  "addConnections i flds db = (r, db') \<Longrightarrow> inTransaction db' = inTransaction db"
proof (induction i flds db rule: addConnections.induct)
  case (1 i db)
  then show ?case by simp
next
  case (2 i fieldname field rest db)
  then show ?case
    by (cases field) (auto split: sum.splits dest: insert_connection_flag)
qed

lemma nontransactionallyRegisterObject_flag:
  "nontransactionallyRegisterObject schema t i db = (r, db') \<Longrightarrow> inTransaction db' = inTransaction db"
  by (auto simp: nontransactionallyRegisterObject_def insert_object_def
      split: option.splits if_splits NodeType.splits dest: addConnections_flag)

lemma run_inTransaction_failure:
  assumes "\<And>r db1. fn (db\<lparr>inTransaction := True\<rparr>) = (r, db1) \<Longrightarrow> inTransaction db1"
    and "run_inTransaction db fn = (Inl e, db')"
  shows "db' = db"
  using assms by (auto simp: run_inTransaction_def split: if_splits prod.splits sum.splits)


lemma registerObject_existing:
  assumes "\<not> inTransaction db" "select_typename db i = Some t1"
  shows "registerObject schema t i db =
     (if t1 = t then (Inr (), db) else (Inl (InconsistentType (inconsistentTypeMessage i t1 t)), db))"
  using assms by (simp add: registerObject_def run_inTransaction_def nontransactionallyRegisterObject_def)




lemma select_typename_row:
  "distinct (map o_id (objects db)) \<Longrightarrow> row \<in> set (objects db) \<Longrightarrow>
   select_typename db (o_id row) = Some (o_typename row)"
proof -
  assume d: "distinct (map o_id (objects db))" and r: "row \<in> set (objects db)"
  then obtain x where x: "find (\<lambda>r. o_id r = o_id row) (objects db) = Some x"
    by (cases "find (\<lambda>r. o_id r = o_id row) (objects db)") (auto simp: find_None_iff)
  then have "x \<in> set (objects db)" "o_id x = o_id row"
    by (auto simp: find_Some_iff)
  with d r have "x = row" by (metis distinct_map_eq)
  with x show ?thesis by (simp add: select_typename_def)
qed

lemma select_typename_None: "select_typename db i = None \<longleftrightarrow> i \<notin> set (map o_id (objects db))"
  by (auto simp: select_typename_def find_None_iff)

lemma registerObject_error_kinds:
  assumes "nontransactionallyRegisterObject schema t i db = (Inl e, db')"
    "(\<exists>m. e = UnknownType m) \<or> (\<exists>m. e = AmbiguousType m)"
  shows "select_typename db i = None"
proof -
  have ic: "insert_connection i f d = Inl x \<Longrightarrow> \<exists>m. x = SqliteError m" for i f d x
    by (auto simp: insert_connection_def split: if_splits)
  have ac: "addConnections i flds d = (Inl x, d') \<Longrightarrow> \<exists>m. x = SqliteError m" for i flds d x d'
  proof (induction i flds d rule: addConnections.induct)
    case (1 i db)
    then show ?case by simp
  next
    case (2 i fieldname field rest db)
    then show ?case by (cases field) (auto split: sum.splits dest: ic)
  qed
  show ?thesis
    using assms
    by (auto simp: nontransactionallyRegisterObject_def insert_object_def
      split: option.splits if_splits NodeType.splits dest: ac)
qed

subsection \<open>\<open>registerObject\<close>: results and errors\<close>




subsection \<open>The existing row is looked at before the schema\<close>

text \<open>
  C9. Outside a transaction and with unique ids: for an id registered under \<open>T1\<close> and any
  \<open>T2\<close> other than \<open>T1\<close>, \<open>registerObject({typename: T2, id})\<close> throws
  "Inconsistent type" whatever the schema says of \<open>T2\<close> (absent, a union or an object
  type), and so does the helper that enters no transaction. "Unknown type" and "Cannot add
  object of union type" are only ever thrown for an id that no row has.
\<close>

theorem registerObject_inconsistent_before_schema:
  assumes "\<not> inTransaction db" and "distinct (map o_id (objects db))"
    and "row \<in> set (objects db)" and "o_id row = i" and "o_typename row = T1" and "T2 \<noteq> T1"
  shows "registerObject schema T2 i db =
           (Inl (InconsistentType (inconsistentTypeMessage i T1 T2)), db) \<and>
         nontransactionallyRegisterObject schema T2 i db =
           (Inl (InconsistentType (inconsistentTypeMessage i T1 T2)), db) \<and>
         (\<forall>T j e db'.
            (registerObject schema T j db = (Inl e, db') \<or>
             nontransactionallyRegisterObject schema T j db = (Inl e, db')) \<and>
            ((\<exists>m. e = UnknownType m) \<or> (\<exists>m. e = AmbiguousType m)) \<longrightarrow>
            j \<notin> set (map o_id (objects db)))"
proof -
  have sel: "select_typename db i = Some T1"
    using select_typename_row [OF assms(2,3)] assms(4,5) by simp
  have 1: "registerObject schema T2 i db =
           (Inl (InconsistentType (inconsistentTypeMessage i T1 T2)), db)"
    using registerObject_existing [OF assms(1) sel] assms(6) by simp
  have 2: "nontransactionallyRegisterObject schema T2 i db =
           (Inl (InconsistentType (inconsistentTypeMessage i T1 T2)), db)"
    using sel assms(6) by (simp add: nontransactionallyRegisterObject_def)
  have 3: "j \<notin> set (map o_id (objects db))"
    if h: "(registerObject schema T j db = (Inl e, db') \<or>
             nontransactionallyRegisterObject schema T j db = (Inl e, db')) \<and>
            ((\<exists>m. e = UnknownType m) \<or> (\<exists>m. e = AmbiguousType m))" for T j e db'
  proof -
    from h have k: "(\<exists>m. e = UnknownType m) \<or> (\<exists>m. e = AmbiguousType m)" by blast
    from h consider (a) "registerObject schema T j db = (Inl e, db')"
      | (b) "nontransactionallyRegisterObject schema T j db = (Inl e, db')" by blast
    then have "select_typename db j = None"
    proof cases
      case a
      then obtain d where "nontransactionallyRegisterObject schema T j (db\<lparr>inTransaction := True\<rparr>) = (Inl e, d)"
        using assms(1) k
        by (auto simp: registerObject_def run_inTransaction_def split: prod.splits sum.splits)
      from registerObject_error_kinds [OF this k] show ?thesis by simp
    next
      case b
      from registerObject_error_kinds [OF b k] show ?thesis .
    qed
    then show ?thesis by (simp add: select_typename_None)
  qed
  from 1 2 3 show ?thesis by blast
qed

theorem registerObject_inconsistent_before_schema_witness:
  \<open>\<not> inTransaction store_S4 \<and> distinct (map o_id (objects store_S4)) \<and>
   \<lparr>o_id = ''my-favorite-id'', o_last_update = None, o_typename = ''Issue''\<rparr>
     \<in> set (objects store_S4) \<and>
   map_of githubSchema ''Wat'' = None \<and>
   map_of githubSchema ''Actor'' = Some (UNION [''User'', ''Bot'', ''Organization'']) \<and>
   registerObject githubSchema ''Wat'' ''my-favorite-id'' store_S4 =
     (Inl (InconsistentType
        ''Inconsistent type for ID "my-favorite-id": expected "Issue", got "Wat"''), store_S4) \<and>
   registerObject githubSchema ''Actor'' ''my-favorite-id'' store_S4 =
     (Inl (InconsistentType
        ''Inconsistent type for ID "my-favorite-id": expected "Issue", got "Actor"''), store_S4)\<close>
proof -
  let ?row = "\<lparr>o_id = ''my-favorite-id'', o_last_update = None, o_typename = ''Issue''\<rparr>"
  have h1: "\<not> inTransaction store_S4"
    by (simp add: store_S4_def initialized_store_def)
  have h2: "distinct (map o_id (objects store_S4))"
    by (simp add: store_S4_def)
  have row: "?row \<in> set (objects store_S4)"
    by (simp add: store_S4_def)
  have s1: "map_of githubSchema ''Wat'' = None"
    by (simp add: githubSchema_def)
  have s2: "map_of githubSchema ''Actor'' = Some (UNION [''User'', ''Bot'', ''Organization''])"
    by (simp add: githubSchema_def)
  have a: \<open>registerObject githubSchema ''Wat'' ''my-favorite-id'' store_S4 =
     (Inl (InconsistentType
        ''Inconsistent type for ID "my-favorite-id": expected "Issue", got "Wat"''), store_S4)\<close>
    using registerObject_inconsistent_before_schema
      [OF h1 h2 row, of "''my-favorite-id''" "''Issue''" "''Wat''" githubSchema]
    by (simp add: inconsistentTypeMessage_def JSON_stringify_def escapeChar_def)
  have b: \<open>registerObject githubSchema ''Actor'' ''my-favorite-id'' store_S4 =
     (Inl (InconsistentType
        ''Inconsistent type for ID "my-favorite-id": expected "Issue", got "Actor"''), store_S4)\<close>
    using registerObject_inconsistent_before_schema
      [OF h1 h2 row, of "''my-favorite-id''" "''Issue''" "''Actor''" githubSchema]
    by (simp add: inconsistentTypeMessage_def JSON_stringify_def escapeChar_def)
  show ?thesis
    by (intro conjI) (rule h1 h2 row s1 s2 a b)+
qed

subsection \<open>The query for a page of a connection\<close>

text \<open>
  C7. \<open>_queryConnection(fieldname, endCursor, pageSize)\<close> is the one field
  \<open>fieldname(first: pageSize [, after: endCursor]) { totalCount pageInfo { endCursor
  hasNextPage } nodes { __typename id } }\<close>: with no \<open>after\<close> argument when
  \<open>endCursor\<close> is \<open>undefined\<close>, with \<open>after: null\<close> when it is \<open>null\<close>, with
  \<open>after\<close> the cursor when it is a string; the page size is 100 when the call gives none.
\<close>

theorem queryConnection_selection:
  "queryConnection fieldname Undefined (Some pageSize) =
     [Field fieldname [(''first'', Literal (LNumber pageSize))]
        [Field ''totalCount'' [] [],
         Field ''pageInfo'' [] [Field ''endCursor'' [] [], Field ''hasNextPage'' [] []],
         Field ''nodes'' [] [Field ''__typename'' [] [], Field ''id'' [] []]]] \<and>
   queryConnection fieldname (EndCursor None) (Some pageSize) =
     [Field fieldname [(''first'', Literal (LNumber pageSize)), (''after'', Literal LNull)]
        [Field ''totalCount'' [] [],
         Field ''pageInfo'' [] [Field ''endCursor'' [] [], Field ''hasNextPage'' [] []],
         Field ''nodes'' [] [Field ''__typename'' [] [], Field ''id'' [] []]]] \<and>
   queryConnection fieldname (EndCursor (Some cursor)) (Some pageSize) =
     [Field fieldname
        [(''first'', Literal (LNumber pageSize)), (''after'', Literal (LString cursor))]
        [Field ''totalCount'' [] [],
         Field ''pageInfo'' [] [Field ''endCursor'' [] [], Field ''hasNextPage'' [] []],
         Field ''nodes'' [] [Field ''__typename'' [] [], Field ''id'' [] []]]] \<and>
   queryConnection fieldname endCursorArg None = queryConnection fieldname endCursorArg (Some 100) \<and>
   (\<exists>arguments children.
      queryConnection fieldname endCursorArg pageSizeArg = [Field fieldname arguments children] \<and>
      ((''after'' \<in> set (map fst arguments)) = (endCursorArg \<noteq> Undefined)))"
  by (cases endCursorArg) (simp_all add: queryConnection_def queryShallow_def)

subsection \<open>Invariants of the store\<close>

lemma next_rowid_fresh: "next_rowid rs \<notin> set rs"
proof (cases "rs = []")
  case True
  then show ?thesis by simp
next
  case False
  show ?thesis
  proof
    assume "next_rowid rs \<in> set rs"
    then have "next_rowid rs \<le> Max (set rs)" by simp
    with False show False by (simp add: next_rowid_def)
  qed
qed

lemma insert_connection_effect:
  "insert_connection i f db = Inr db' \<Longrightarrow>
   db' = db\<lparr>connections := connections db @
        [\<lparr>c_rowid = next_rowid (map c_rowid (connections db)),
          c_object_id = i, c_fieldname = f,
          c_last_update = None, c_total_count = None,
          c_has_next_page = None, c_end_cursor = None\<rparr>]\<rparr>"
  by (auto simp: insert_connection_def split: if_splits)

lemma connectionNames_simps [simp]:
  "connectionNames [] = []"
  "connectionNames ((f, ID) # flds) = connectionNames flds"
  "connectionNames ((f, PRIMITIVE) # flds) = connectionNames flds"
  "connectionNames ((f, NODE t) # flds) = connectionNames flds"
  "connectionNames ((f, CONNECTION t) # flds) = f # connectionNames flds"
  by (simp_all add: connectionNames_def)

lemma insert_connection_key:
  "insert_connection i f db = Inr db' \<Longrightarrow> (i, f) \<notin> set (map connection_key (connections db))"
  by (auto simp: insert_connection_def connection_key_def split: if_splits)

lemma addConnections_effect:
  "addConnections i flds db = (Inr (), db') \<Longrightarrow>
     \<exists>cs. db' = db\<lparr>connections := connections db @ cs\<rparr> \<and>
       map c_fieldname cs = connectionNames flds \<and>
       (\<forall>c \<in> set cs. c_object_id c = i \<and> unfetched c) \<and>
       (distinct (map c_rowid (connections db)) \<longrightarrow>
          distinct (map c_rowid (connections db @ cs))) \<and>
       (distinct (map connection_key (connections db)) \<longrightarrow>
          distinct (map connection_key (connections db @ cs)))"
proof (induction i flds db rule: addConnections.induct)
  case (1 i db)
  then show ?case by simp
next
  case (2 i fieldname field rest db)
  show ?case
  proof (cases field)
    case (CONNECTION t)
    with "2.prems" obtain db1 where ic: "insert_connection i fieldname db = Inr db1"
      and rest: "addConnections i rest db1 = (Inr (), db')"
      by (auto split: sum.splits)
    let ?c = "\<lparr>c_rowid = next_rowid (map c_rowid (connections db)),
          c_object_id = i, c_fieldname = fieldname,
          c_last_update = None, c_total_count = None,
          c_has_next_page = None, c_end_cursor = None\<rparr>"
    have db1: "db1 = db\<lparr>connections := connections db @ [?c]\<rparr>"
      using ic by (rule insert_connection_effect)
    from "2.IH"(4) [OF CONNECTION ic rest] obtain cs where
      cs: "db' = db1\<lparr>connections := connections db1 @ cs\<rparr>"
        "map c_fieldname cs = connectionNames rest"
        "\<forall>c \<in> set cs. c_object_id c = i \<and> unfetched c"
        "distinct (map c_rowid (connections db1)) \<longrightarrow>
          distinct (map c_rowid (connections db1 @ cs))"
        "distinct (map connection_key (connections db1)) \<longrightarrow>
          distinct (map connection_key (connections db1 @ cs))"
      by blast
    have fresh_key: "connection_key ?c \<notin> set (map connection_key (connections db))"
      using insert_connection_key [OF ic] by (simp add: connection_key_def)
    have fresh: "c_rowid ?c \<notin> set (map c_rowid (connections db))"
      using next_rowid_fresh [of "map c_rowid (connections db)"] by simp
    show ?thesis
    proof (intro exI [of _ "?c # cs"] conjI impI)
      show "db' = db\<lparr>connections := connections db @ ?c # cs\<rparr>"
        using cs(1) db1 by simp
      show "map c_fieldname (?c # cs) = connectionNames ((fieldname, field) # rest)"
        using cs(2) CONNECTION by simp
      show "\<forall>c \<in> set (?c # cs). c_object_id c = i \<and> unfetched c"
        using cs(3) by (simp add: unfetched_def)
      show "distinct (map c_rowid (connections db @ ?c # cs))"
        if "distinct (map c_rowid (connections db))"
      proof -
        from that fresh have "distinct (map c_rowid (connections db1))"
          unfolding db1 by simp
        with cs(4) show ?thesis unfolding db1 by simp
      qed
      show "distinct (map connection_key (connections db @ ?c # cs))"
        if "distinct (map connection_key (connections db))"
      proof -
        from that fresh_key have "distinct (map connection_key (connections db1))"
          unfolding db1 by simp
        with cs(5) show ?thesis unfolding db1 by simp
      qed
    qed
  qed (use 2 in auto)
qed

lemma addConnections_succeeds:
  "i \<in> set (map o_id (objects db)) \<Longrightarrow> distinct (connectionNames flds) \<Longrightarrow>
   \<forall>c \<in> set (connections db). c_object_id c = i \<longrightarrow> c_fieldname c \<notin> set (connectionNames flds) \<Longrightarrow>
   \<exists>db'. addConnections i flds db = (Inr (), db')"
proof (induction i flds db rule: addConnections.induct)
  case (1 i db)
  then show ?case by simp
next
  case (2 i fieldname field rest db)
  show ?case
  proof (cases field)
    case (CONNECTION t)
    let ?c = "\<lparr>c_rowid = next_rowid (map c_rowid (connections db)),
          c_object_id = i, c_fieldname = fieldname,
          c_last_update = None, c_total_count = None,
          c_has_next_page = None, c_end_cursor = None\<rparr>"
    let ?db1 = "db\<lparr>connections := connections db @ [?c]\<rparr>"
    have ic: "insert_connection i fieldname db = Inr ?db1"
      using "2.prems" CONNECTION by (auto simp: insert_connection_def)
    have "\<exists>db'. addConnections i rest ?db1 = (Inr (), db')"
      using "2.prems" CONNECTION by (intro "2.IH"(4) [OF CONNECTION ic]) auto
    then show ?thesis using ic CONNECTION by simp
  qed (use 2 in auto)
qed

lemma select_typename_Some_in:
  "select_typename db i = Some t \<Longrightarrow> i \<in> set (map o_id (objects db))"
  by (auto simp: select_typename_def find_Some_iff)

lemma register_effect:
  assumes "nontransactionallyRegisterObject schema t i db = (Inr (), db')"
  shows "(select_typename db i = Some t \<and> db' = db) \<or>
         (i \<notin> set (map o_id (objects db)) \<and>
          (\<exists>flds cs. map_of schema t = Some (OBJECT flds) \<and>
             db' = db\<lparr>objects := objects db @
                       [\<lparr>o_id = i, o_last_update = None, o_typename = t\<rparr>],
                     connections := connections db @ cs\<rparr> \<and>
             map c_fieldname cs = connectionNames flds \<and>
             (\<forall>c \<in> set cs. c_object_id c = i \<and> unfetched c) \<and>
             (distinct (map c_rowid (connections db)) \<longrightarrow>
                distinct (map c_rowid (connections db @ cs))) \<and>
             (distinct (map connection_key (connections db)) \<longrightarrow>
                distinct (map connection_key (connections db @ cs)))))"
proof (cases "select_typename db i")
  case (Some existing)
  with assms show ?thesis
    by (auto simp: nontransactionallyRegisterObject_def split: if_splits)
next
  case None
  then have fresh: "i \<notin> set (map o_id (objects db))"
    by (simp add: select_typename_None)
  from assms None obtain flds where
    flds: "map_of schema t = Some (OBJECT flds)"
    by (auto simp: nontransactionallyRegisterObject_def
        split: option.splits NodeType.splits if_splits)
  let ?db1 = "db\<lparr>objects := objects db @ [\<lparr>o_id = i, o_last_update = None, o_typename = t\<rparr>]\<rparr>"
  have io: "insert_object i t db = Inr ?db1"
    using fresh by (simp add: insert_object_def)
  with assms None flds have "addConnections i flds ?db1 = (Inr (), db')"
    by (simp add: nontransactionallyRegisterObject_def)
  from addConnections_effect [OF this] obtain cs where
    cs: "db' = ?db1\<lparr>connections := connections ?db1 @ cs\<rparr>"
      "map c_fieldname cs = connectionNames flds"
      "\<forall>c \<in> set cs. c_object_id c = i \<and> unfetched c"
      "distinct (map c_rowid (connections ?db1)) \<longrightarrow>
          distinct (map c_rowid (connections ?db1 @ cs))"
      "distinct (map connection_key (connections ?db1)) \<longrightarrow>
          distinct (map connection_key (connections ?db1 @ cs))"
    by blast
  have "db' = db\<lparr>objects := objects db @
                       [\<lparr>o_id = i, o_last_update = None, o_typename = t\<rparr>],
                     connections := connections db @ cs\<rparr>"
    using cs(1) by simp
  with fresh flds cs(2,3,4,5) show ?thesis by auto
qed

lemma distinct_connectionNames: "distinct (map fst flds) \<Longrightarrow> distinct (connectionNames flds)"
  unfolding connectionNames_def by (rule distinct_map_filter)

lemma register_fresh_succeeds:
  assumes "i \<notin> set (map o_id (objects db))" and "map_of schema t = Some (OBJECT flds)"
    and "distinct (map fst flds)"
    and "\<forall>c \<in> set (connections db). c_object_id c \<in> set (map o_id (objects db))"
  shows "\<exists>db'. nontransactionallyRegisterObject schema t i db = (Inr (), db')"
proof -
  let ?db1 = "db\<lparr>objects := objects db @ [\<lparr>o_id = i, o_last_update = None, o_typename = t\<rparr>]\<rparr>"
  have io: "insert_object i t db = Inr ?db1"
    using assms(1) by (simp add: insert_object_def)
  have sel: "select_typename db i = None"
    using assms(1) by (simp add: select_typename_None)
  have "\<exists>db'. addConnections i flds ?db1 = (Inr (), db')"
  proof (rule addConnections_succeeds)
    show "i \<in> set (map o_id (objects ?db1))" by simp
    show "distinct (connectionNames flds)"
      using assms(3) by (rule distinct_connectionNames)
    show "\<forall>c \<in> set (connections ?db1). c_object_id c = i \<longrightarrow> c_fieldname c \<notin> set (connectionNames flds)"
      using assms(1,4) by auto
  qed
  then show ?thesis
    using io sel assms(2) by (simp add: nontransactionallyRegisterObject_def)
qed

lemma register_preserves:
  assumes "nontransactionallyRegisterObject schema t i db = (Inr (), db')" and "rows_inv schema db"
  shows "rows_inv schema db'"
proof -
  from register_effect [OF assms(1)] show ?thesis
  proof (elim disjE conjE exE)
    assume "db' = db"
    with assms(2) show ?thesis by simp
  next
    fix flds cs
    let ?new = "\<lparr>o_id = i, o_last_update = None, o_typename = t\<rparr>"
    assume fresh: "i \<notin> set (map o_id (objects db))"
      and flds: "map_of schema t = Some (OBJECT flds)"
      and db': "db' = db\<lparr>objects := objects db @ [?new], connections := connections db @ cs\<rparr>"
      and names: "map c_fieldname cs = connectionNames flds"
      and cs: "\<forall>c \<in> set cs. c_object_id c = i \<and> unfetched c"
      and dist: "distinct (map c_rowid (connections db)) \<longrightarrow>
                distinct (map c_rowid (connections db @ cs))"
        "distinct (map connection_key (connections db)) \<longrightarrow>
                distinct (map connection_key (connections db @ cs))"
    from assms(2) have k: "inv_keys db" and f: "inv_fields schema db"
      and u: "inv_unfetched db" and e: "inv_entries db"
      by (simp_all add: rows_inv_def)
    have no_old: "filter (\<lambda>c. c_object_id c = i) (connections db) = []"
      using k fresh by (auto simp: inv_keys_def filter_empty_conv)
    have all_new: "filter (\<lambda>c. c_object_id c = i) cs = cs"
      using cs by (simp add: filter_id_conv)
    have not_new: "filter (\<lambda>c. c_object_id c = j) cs = []" if "j \<noteq> i" for j
      using cs that by (auto simp: filter_empty_conv)
    have k': "inv_keys db'"
      using k fresh cs dist unfolding db' by (auto simp: inv_keys_def)
    have f': "inv_fields schema db'"
      unfolding inv_fields_def
    proof
      fix obj assume "obj \<in> set (objects db')"
      then consider (old) "obj \<in> set (objects db)" | (new) "obj = ?new"
        unfolding db' by auto
      then show "\<exists>flds. map_of schema (o_typename obj) = Some (OBJECT flds) \<and>
        map c_fieldname (filter (\<lambda>c. c_object_id c = o_id obj) (connections db')) =
          connectionNames flds"
      proof cases
        case old
        then have "o_id obj \<noteq> i" using fresh by auto
        with old f show ?thesis
          unfolding db' by (simp add: inv_fields_def not_new)
      next
        case new
        then show ?thesis
          unfolding db' using flds names by (simp add: no_old all_new)
      qed
    qed
    have u': "inv_unfetched db'"
      using u cs unfolding db' by (auto simp: inv_unfetched_def)
    have e': "inv_entries db'"
      using e unfolding db' by (simp add: inv_entries_def entry_indices_def)
    from k' f' u' e' show ?thesis by (simp add: rows_inv_def)
  qed
qed

lemma Max_upto: "1 \<le> n \<Longrightarrow> Max (set [1..n]) = (n::int)"
  by (simp add: Max_eq_iff)

lemma fetched_row_keys [simp]:
  "c_rowid (fetched_row cid uid n h cur c) = c_rowid c"
  "c_object_id (fetched_row cid uid n h cur c) = c_object_id c"
  "c_fieldname (fetched_row cid uid n h cur c) = c_fieldname c"
  by (simp_all add: fetched_row_def)

lemma fetched_row_key [simp]: "connection_key (fetched_row cid uid n h cur c) = connection_key c"
  by (simp add: connection_key_def)

lemma update_connection_row_effect:
  "update_connection_row cid uid n h cur db = Inr db' \<Longrightarrow>
   db' = db\<lparr>connections := map (fetched_row cid uid n h cur) (connections db)\<rparr>"
  by (auto simp: update_connection_row_def fetched_row_def split: if_splits)

lemma filter_owner_map_fetched:
  "map f (filter (\<lambda>c. c_object_id c = j) (map (fetched_row cid uid n h cur) cs)) =
   map (f \<circ> fetched_row cid uid n h cur) (filter (\<lambda>c. c_object_id c = j) cs)"
  by (induction cs) auto

lemma update_connection_row_preserves:
  assumes "update_connection_row cid uid n h cur db = Inr db'" and "rows_inv schema db"
  shows "rows_inv schema db'"
proof -
  note db' = update_connection_row_effect [OF assms(1)]
  from assms(2) have k: "inv_keys db" and f: "inv_fields schema db"
    and u: "inv_unfetched db" and e: "inv_entries db"
    by (simp_all add: rows_inv_def)
  have k': "inv_keys db'"
    using k unfolding db' by (auto simp: inv_keys_def comp_def)
  have f': "inv_fields schema db'"
    using f unfolding db' inv_fields_def
    by (simp add: filter_owner_map_fetched [where f = c_fieldname] comp_def)
  have u': "inv_unfetched db'"
    using u unfolding db' by (auto simp: inv_unfetched_def fetched_row_def unfetched_def)
  have e': "inv_entries db'"
    using e unfolding db' by (simp add: inv_entries_def entry_indices_def)
  from k' f' u' e' show ?thesis by (simp add: rows_inv_def)
qed

lemma insert_entry_effect:
  "insert_entry cid k child db = Inr db' \<Longrightarrow>
   db' = db\<lparr>connection_entries := connection_entries db @
        [\<lparr>e_rowid = next_rowid (map e_rowid (connection_entries db)),
          e_connection_id = cid, e_idx = k, e_child_id = child\<rparr>]\<rparr>"
  by (auto simp: insert_entry_def split: if_splits)

lemma select_next_index_inv:
  assumes "inv_entries db"
  shows "select_next_index db cid = 1 + int (length (entry_indices db cid))"
proof -
  let ?idxs = "entry_indices db cid"
  have eq: "?idxs = [1..int (length ?idxs)]"
    using assms by (simp add: inv_entries_def)
  show ?thesis
  proof (cases "?idxs = []")
    case True
    then show ?thesis by (simp add: select_next_index_def entry_indices_def)
  next
    case False
    then have "1 \<le> int (length ?idxs)" by (cases ?idxs) auto
    then have "Max (set [1..int (length ?idxs)]) = int (length ?idxs)" by (rule Max_upto)
    with eq have "Max (set ?idxs) = int (length ?idxs)" by simp
    with False show ?thesis by (simp add: select_next_index_def entry_indices_def Let_def)
  qed
qed

lemma insert_entry_preserves:
  assumes "insert_entry cid k child db = Inr db'" and "rows_inv schema db"
    and "k = 1 + int (length (entry_indices db cid))"
  shows "rows_inv schema db'" and "entry_indices db' cid = entry_indices db cid @ [k]"
proof -
  note db' = insert_entry_effect [OF assms(1)]
  from assms(2) have k: "inv_keys db" and f: "inv_fields schema db"
    and u: "inv_unfetched db" and e: "inv_entries db"
    by (simp_all add: rows_inv_def)
  show idx: "entry_indices db' cid = entry_indices db cid @ [k]"
    unfolding db' by (simp add: entry_indices_def)
  have other: "entry_indices db' j = entry_indices db j" if "j \<noteq> cid" for j
    unfolding db' using that by (simp add: entry_indices_def)
  have e': "inv_entries db'"
    unfolding inv_entries_def
  proof
    fix j
    show "entry_indices db' j = [1..int (length (entry_indices db' j))]"
    proof (cases "j = cid")
      case True
      let ?n = "int (length (entry_indices db cid))"
      have "entry_indices db cid = [1..?n]" using e by (simp add: inv_entries_def)
      then have "entry_indices db' cid = [1..?n] @ [?n + 1]"
        using idx assms(3) by simp
      also have "\<dots> = [1..?n + 1]" by (simp add: upto_rec2)
      finally show ?thesis using True idx by simp
    next
      case False
      then show ?thesis using e other by (simp add: inv_entries_def)
    qed
  qed
  have "inv_keys db'" using k unfolding db' by (simp add: inv_keys_def)
  moreover have "inv_fields schema db'" using f unfolding db' by (simp add: inv_fields_def)
  moreover have "inv_unfetched db'" using u unfolding db' by (simp add: inv_unfetched_def)
  ultimately show "rows_inv schema db'" using e' by (simp add: rows_inv_def)
qed

lemma find_append:
  "find P (xs @ ys) = (case find P xs of None \<Rightarrow> find P ys | Some x \<Rightarrow> Some x)"
  by (induction xs) auto

lemma register_entries:
  "nontransactionallyRegisterObject schema t i db = (Inr (), db') \<Longrightarrow>
   connection_entries db' = connection_entries db"
  using register_effect [of schema t i db db'] by auto

lemma select_typename_append:
  "select_typename db i = Some t \<Longrightarrow> objects db' = objects db @ os \<Longrightarrow>
   select_typename db' i = Some t"
  by (auto simp: select_typename_def find_append split: option.splits)

lemma register_effect2:
  assumes "nontransactionallyRegisterObject schema t i db = (Inr (), db')"
  shows "\<exists>os cs. db' = db\<lparr>objects := objects db @ os, connections := connections db @ cs\<rparr> \<and>
           (\<forall>c \<in> set cs. c_object_id c \<notin> set (map o_id (objects db)) \<and> unfetched c) \<and>
           select_typename db' i = Some t"
  using register_effect [OF assms]
proof (elim disjE conjE exE)
  assume "select_typename db i = Some t" "db' = db"
  then show ?thesis by (intro exI [of _ "[]"]) simp
next
  fix flds cs
  assume h: "i \<notin> set (map o_id (objects db))"
    "db' = db\<lparr>objects := objects db @ [\<lparr>o_id = i, o_last_update = None, o_typename = t\<rparr>],
               connections := connections db @ cs\<rparr>"
    "\<forall>c \<in> set cs. c_object_id c = i \<and> unfetched c"
  have "find (\<lambda>r. o_id r = i) (objects db) = None"
    using h(1) by (auto simp: find_None_iff)
  then have "select_typename db' i = Some t"
    unfolding h(2) by (simp add: select_typename_def find_append)
  with h show ?thesis
    by (intro exI [of _ "[\<lparr>o_id = i, o_last_update = None, o_typename = t\<rparr>]"] exI [of _ cs]) auto
qed

lemma addEntries_effect:
  "addEntries schema cid k ns db = (Inr (), db') \<Longrightarrow>
    \<exists>os cs es.
      db' = db\<lparr>objects := objects db @ os, connections := connections db @ cs,
               connection_entries := connection_entries db @ es\<rparr> \<and>
      (\<forall>c \<in> set cs. c_object_id c \<notin> set (map o_id (objects db)) \<and> unfetched c) \<and>
      map e_idx es = [k..k + int (length ns) - 1] \<and>
      map e_child_id es = map n_id ns \<and>
      (\<forall>e \<in> set es. e_connection_id e = cid) \<and>
      (\<forall>n \<in> set ns. select_typename db' (n_id n) = Some (n_typename n))"
proof (induction ns arbitrary: k db)
  case Nil
  then show ?case by (intro exI [of _ "[]"]) simp
next
  case (Cons node rest)
  from Cons.prems obtain db1 db2 where
    reg: "nontransactionallyRegisterObject schema (n_typename node) (n_id node) db = (Inr (), db1)"
    and ins: "insert_entry cid k (n_id node) db1 = Inr db2"
    and rest: "addEntries schema cid (k + 1) rest db2 = (Inr (), db')"
    by (auto split: prod.splits sum.splits)
  from register_effect2 [OF reg] obtain os1 cs1 where
    db1: "db1 = db\<lparr>objects := objects db @ os1, connections := connections db @ cs1\<rparr>"
    and cs1: "\<forall>c \<in> set cs1. c_object_id c \<notin> set (map o_id (objects db)) \<and> unfetched c"
    and sel1: "select_typename db1 (n_id node) = Some (n_typename node)"
    by blast
  let ?e = "\<lparr>e_rowid = next_rowid (map e_rowid (connection_entries db1)),
          e_connection_id = cid, e_idx = k, e_child_id = n_id node\<rparr>"
  note db2 = insert_entry_effect [OF ins]
  from Cons.IH [OF rest] obtain os2 cs2 es2 where
    db': "db' = db2\<lparr>objects := objects db2 @ os2, connections := connections db2 @ cs2,
               connection_entries := connection_entries db2 @ es2\<rparr>"
    and cs2: "\<forall>c \<in> set cs2. c_object_id c \<notin> set (map o_id (objects db2)) \<and> unfetched c"
    and idx2: "map e_idx es2 = [k + 1..k + 1 + int (length rest) - 1]"
    and child2: "map e_child_id es2 = map n_id rest"
    and conn2: "\<forall>e \<in> set es2. e_connection_id e = cid"
    and sel2: "\<forall>n \<in> set rest. select_typename db' (n_id n) = Some (n_typename n)"
    by blast
  have o2: "objects db2 = objects db @ os1" unfolding db2 db1 by simp
  have eq: "db' = db\<lparr>objects := objects db @ (os1 @ os2),
               connections := connections db @ (cs1 @ cs2),
               connection_entries := connection_entries db @ (?e # es2)\<rparr>"
    unfolding db' db2 db1 by simp
  have idx: "map e_idx (?e # es2) = [k..k + int (length (node # rest)) - 1]"
    using idx2 by (simp add: upto_rec1 [of k])
  have "objects db' = objects db1 @ os2" unfolding eq db1 by simp
  with sel1 have "select_typename db' (n_id node) = Some (n_typename node)"
    by (rule select_typename_append)
  with sel2 have sel: "\<forall>n \<in> set (node # rest). select_typename db' (n_id n) = Some (n_typename n)"
    by simp
  have cs: "\<forall>c \<in> set (cs1 @ cs2). c_object_id c \<notin> set (map o_id (objects db)) \<and> unfetched c"
    using cs1 cs2 o2 by auto
  show ?case
    using eq cs idx child2 conn2 sel
    by (intro exI [of _ "os1 @ os2"] exI [of _ "cs1 @ cs2"] exI [of _ "?e # es2"]) simp
qed

lemma addEntries_preserves:
  "addEntries schema cid k ns db = (Inr (), db') \<Longrightarrow> rows_inv schema db \<Longrightarrow>
   k = 1 + int (length (entry_indices db cid)) \<Longrightarrow> rows_inv schema db'"
proof (induction ns arbitrary: k db)
  case Nil
  then show ?case by simp
next
  case (Cons node rest)
  from Cons.prems(1) obtain db1 db2 where
    reg: "nontransactionallyRegisterObject schema (n_typename node) (n_id node) db = (Inr (), db1)"
    and ins: "insert_entry cid k (n_id node) db1 = Inr db2"
    and rest: "addEntries schema cid (k + 1) rest db2 = (Inr (), db')"
    by (auto split: prod.splits sum.splits)
  have inv1: "rows_inv schema db1"
    using reg Cons.prems(2) by (rule register_preserves)
  have "entry_indices db1 cid = entry_indices db cid"
    using register_entries [OF reg] by (simp add: entry_indices_def)
  with Cons.prems(3) have k1: "k = 1 + int (length (entry_indices db1 cid))" by simp
  note step = insert_entry_preserves [OF ins inv1 k1]
  from step(2) k1 have "k + 1 = 1 + int (length (entry_indices db2 cid))" by simp
  with Cons.IH [OF rest step(1)] show ?case by simp
qed

lemma select_connection_rowid_Some:
  "select_connection_rowid db oid f = Some cid \<Longrightarrow>
   \<exists>c \<in> set (connections db). c_rowid c = cid \<and> c_object_id c = oid \<and> c_fieldname c = f"
  by (auto simp: select_connection_rowid_def find_Some_iff)


lemma updateConnection_steps:
  assumes "nontransactionallyUpdateConnection schema uid oid f q db = (Inr (), db')"
  shows "\<exists>cid db1. select_connection_rowid db oid f = Some cid \<and>
     uid \<in> set (map u_rowid (updates db)) \<and>
     update_connection_row cid uid (totalCount q) (hasNextPageColumn q) (endCursor (pageInfo q)) db
       = Inr db1 \<and>
     addEntries schema cid (select_next_index db cid) (nodes q) db1 = (Inr (), db')"
proof -
  from assms obtain cid where cid: "select_connection_rowid db oid f = Some cid"
    by (auto simp: nontransactionallyUpdateConnection_def split: option.splits)
  with assms obtain db1 where
    up: "update_connection_row cid uid (totalCount q) (hasNextPageColumn q)
           (endCursor (pageInfo q)) db = Inr db1"
    and add: "addEntries schema cid (select_next_index db1 cid) (nodes q) db1 = (Inr (), db')"
    by (auto simp: nontransactionallyUpdateConnection_def hasNextPageColumn_def split: sum.splits)
  have "cid \<in> set (map c_rowid (connections db))"
    using select_connection_rowid_Some [OF cid] by auto
  with up have uid: "uid \<in> set (map u_rowid (updates db))"
    by (auto simp: update_connection_row_def split: if_splits)
  have "select_next_index db1 cid = select_next_index db cid"
    unfolding update_connection_row_effect [OF up] by (simp add: select_next_index_def)
  with cid uid up add show ?thesis by auto
qed

lemma updateConnection_effect:
  assumes "nontransactionallyUpdateConnection schema uid oid f q db = (Inr (), db')"
  shows "\<exists>cid os cs es.
     select_connection_rowid db oid f = Some cid \<and>
     uid \<in> set (map u_rowid (updates db)) \<and>
     db' = db\<lparr>objects := objects db @ os,
              connections := map (fetched_row cid uid (totalCount q) (hasNextPageColumn q)
                 (endCursor (pageInfo q))) (connections db) @ cs,
              connection_entries := connection_entries db @ es\<rparr> \<and>
     (\<forall>c \<in> set cs. c_object_id c \<notin> set (map o_id (objects db)) \<and> unfetched c) \<and>
     map e_idx es =
       [select_next_index db cid..select_next_index db cid + int (length (nodes q)) - 1] \<and>
     map e_child_id es = map n_id (nodes q) \<and>
     (\<forall>e \<in> set es. e_connection_id e = cid) \<and>
     (\<forall>n \<in> set (nodes q). select_typename db' (n_id n) = Some (n_typename n))"
proof -
  from updateConnection_steps [OF assms] obtain cid db1 where
    cid: "select_connection_rowid db oid f = Some cid"
    and uid: "uid \<in> set (map u_rowid (updates db))"
    and up: "update_connection_row cid uid (totalCount q) (hasNextPageColumn q)
           (endCursor (pageInfo q)) db = Inr db1"
    and add: "addEntries schema cid (select_next_index db cid) (nodes q) db1 = (Inr (), db')"
    by blast
  note db1 = update_connection_row_effect [OF up]
  from addEntries_effect [OF add] obtain os cs es where
    db': "db' = db1\<lparr>objects := objects db1 @ os, connections := connections db1 @ cs,
               connection_entries := connection_entries db1 @ es\<rparr>"
    and rest: "\<forall>c \<in> set cs. c_object_id c \<notin> set (map o_id (objects db1)) \<and> unfetched c"
      "map e_idx es =
         [select_next_index db cid..select_next_index db cid + int (length (nodes q)) - 1]"
      "map e_child_id es = map n_id (nodes q)"
      "\<forall>e \<in> set es. e_connection_id e = cid"
      "\<forall>n \<in> set (nodes q). select_typename db' (n_id n) = Some (n_typename n)"
    by blast
  have "db' = db\<lparr>objects := objects db @ os,
              connections := map (fetched_row cid uid (totalCount q) (hasNextPageColumn q)
                 (endCursor (pageInfo q))) (connections db) @ cs,
              connection_entries := connection_entries db @ es\<rparr>"
    unfolding db' db1 by simp
  moreover have "\<forall>c \<in> set cs. c_object_id c \<notin> set (map o_id (objects db)) \<and> unfetched c"
    using rest(1) unfolding db1 by simp
  ultimately show ?thesis
    using cid uid rest(2-) by blast
qed

lemma updateConnection_preserves:
  assumes "nontransactionallyUpdateConnection schema uid oid f q db = (Inr (), db')"
    and "rows_inv schema db"
  shows "rows_inv schema db'"
proof -
  from updateConnection_steps [OF assms(1)] obtain cid db1 where
    up: "update_connection_row cid uid (totalCount q) (hasNextPageColumn q)
           (endCursor (pageInfo q)) db = Inr db1"
    and add: "addEntries schema cid (select_next_index db cid) (nodes q) db1 = (Inr (), db')"
    by blast
  have inv1: "rows_inv schema db1"
    using up assms(2) by (rule update_connection_row_preserves)
  have "entry_indices db1 cid = entry_indices db cid"
    unfolding update_connection_row_effect [OF up] by (simp add: entry_indices_def)
  moreover have "select_next_index db cid = 1 + int (length (entry_indices db cid))"
    using assms(2) by (intro select_next_index_inv) (simp add: rows_inv_def)
  ultimately have "select_next_index db cid = 1 + int (length (entry_indices db1 cid))"
    by simp
  with add inv1 show ?thesis by (rule addEntries_preserves)
qed

lemma same_rows_refl [simp]: "same_rows db db"
  by (simp add: same_rows_def)

lemma same_rows_trans: "same_rows a b \<Longrightarrow> same_rows b c \<Longrightarrow> same_rows a c"
  by (simp add: same_rows_def)

lemma rows_inv_same_rows: "same_rows db db' \<Longrightarrow> rows_inv schema db' = rows_inv schema db"
  by (simp add: same_rows_def rows_inv_def inv_keys_def inv_fields_def inv_unfetched_def
      inv_entries_def entry_indices_def)

lemma rows_inv_flag [simp]: "rows_inv schema (db\<lparr>inTransaction := b\<rparr>) = rows_inv schema db"
  by (simp add: rows_inv_def inv_keys_def inv_fields_def inv_unfetched_def
      inv_entries_def entry_indices_def)

lemma create_entry_rows: "create_entry entry db = Inr db' \<Longrightarrow> same_rows db db'"
  by (auto simp: create_entry_def same_rows_def split: if_splits)

lemma createAll_rows: "createAll entries db = (r, db') \<Longrightarrow> same_rows db db'"
proof (induction entries arbitrary: db)
  case Nil
  then show ?case by simp
next
  case (Cons entry rest)
  then show ?case
    by (auto split: sum.splits dest!: create_entry_rows intro: same_rows_trans)
qed

lemma createDataTables_rows: "createDataTables schema db = (r, db') \<Longrightarrow> same_rows db db'"
proof (induction schema db rule: createDataTables.induct)
  case (1 db)
  then show ?case by simp
next
  case (2 typename nodeType rest db)
  show ?case
  proof (cases nodeType)
    case (UNION clauses)
    with 2 show ?thesis by simp
  next
    case (OBJECT flds)
    show ?thesis
    proof (cases "isSqlSafe typename")
      case False
      with "2.prems" OBJECT show ?thesis by auto
    next
      case safe: True
      show ?thesis
      proof (cases "primitiveFieldNames flds")
        case (Inl e)
        with "2.prems" OBJECT safe show ?thesis by auto
      next
        case names: (Inr names)
        show ?thesis
        proof (cases "create_entry (dataTable typename names) db")
          case (Inl e)
          with "2.prems" OBJECT safe names show ?thesis by auto
        next
          case (Inr db1)
          with "2.prems" OBJECT safe names have "createDataTables rest db1 = (r, db')" by simp
          from "2.IH"(1) [OF OBJECT _ names Inr this] safe have "same_rows db1 db'" by simp
          with create_entry_rows [OF Inr] show ?thesis by (rule same_rows_trans)
        qed
      qed
    qed
  qed
qed

lemma initialize_body_rows:
  assumes "(let db1 = create_meta_if_not_exists db0 in
        case select_meta_schema db1 of
          Some existingBlob \<Rightarrow>
            if existingBlob = blob then (Inr (), db1)
            else (Inl (IncompatibleSchema m), db1)
        | None \<Rightarrow>
            (case insert_meta blob db1 of
               Inl e \<Rightarrow> (Inl e, db1)
             | Inr db2 \<Rightarrow>
                 (case createAll structuralTables db2 of
                    (Inl e, db3) \<Rightarrow> (Inl e, db3)
                  | (Inr u, db3) \<Rightarrow> createDataTables schema db3))) = (r, db')"
  shows "same_rows db0 db'"
proof -
  let ?db1 = "create_meta_if_not_exists db0"
  have s1: "same_rows db0 ?db1"
    by (simp add: create_meta_if_not_exists_def same_rows_def)
  show ?thesis
  proof (cases "select_meta_schema ?db1")
    case (Some existing)
    with assms s1 show ?thesis by (auto simp: Let_def split: if_splits)
  next
    case None
    show ?thesis
    proof (cases "insert_meta blob ?db1")
      case (Inl e)
      with assms None s1 show ?thesis by (auto simp: Let_def)
    next
      case (Inr db2)
      then have s2: "same_rows ?db1 db2"
        by (auto simp: insert_meta_def same_rows_def split: if_splits)
      obtain r3 db3 where c: "createAll structuralTables db2 = (r3, db3)"
        by (cases "createAll structuralTables db2")
      note s3 = createAll_rows [OF c]
      show ?thesis
      proof (cases r3)
        case (Inl e)
        with assms None Inr c have "db' = db3" by (simp add: Let_def)
        with s1 s2 s3 show ?thesis by (blast intro: same_rows_trans)
      next
        case r: (Inr u)
        with assms None Inr c have "createDataTables schema db3 = (r, db')" by (simp add: Let_def)
        from createDataTables_rows [OF this] s1 s2 s3 show ?thesis
          by (blast intro: same_rows_trans)
      qed
    qed
  qed
qed

lemma run_inTransaction_snd:
  assumes "\<not> inTransaction db"
    and "\<And>r d. fn (db\<lparr>inTransaction := True\<rparr>) = (r, d) \<Longrightarrow> inTransaction d"
  shows "snd (run_inTransaction db fn) = db \<or>
         (\<exists>r d. fn (db\<lparr>inTransaction := True\<rparr>) = (Inr r, d) \<and>
            run_inTransaction db fn = (Inr r, d\<lparr>inTransaction := False\<rparr>))"
proof (cases "fn (db\<lparr>inTransaction := True\<rparr>)")
  case (Pair r d)
  with assms(2) have "inTransaction d" by simp
  with Pair assms(1) show ?thesis
    by (cases r) (auto simp: run_inTransaction_def)
qed

lemma run_inTransaction_Inr:
  assumes "run_inTransaction db fn = (Inr r, db')"
    and "\<And>r d. fn (db\<lparr>inTransaction := True\<rparr>) = (r, d) \<Longrightarrow> inTransaction d"
  shows "\<not> inTransaction db \<and>
         (\<exists>d. fn (db\<lparr>inTransaction := True\<rparr>) = (Inr r, d) \<and> db' = d\<lparr>inTransaction := False\<rparr>)"
proof (cases "fn (db\<lparr>inTransaction := True\<rparr>)")
  case (Pair r1 d)
  with assms(2) have "inTransaction d" by simp
  with Pair assms(1) show ?thesis
    by (cases r1) (auto simp: run_inTransaction_def split: if_splits)
qed

lemma initialize_rows: "same_rows db (snd (initialize_with version schema db))"
proof (cases "inTransaction db")
  case True
  then show ?thesis by (simp add: initialize_with_def run_inTransaction_def)
next
  case False
  let ?fn = "\<lambda>db0. let db1 = create_meta_if_not_exists db0 in
        case select_meta_schema db1 of
          Some existingBlob \<Rightarrow>
            if existingBlob = schemaBlob version schema then (Inr (), db1)
            else (Inl (IncompatibleSchema
                    ''Database already populated with incompatible schema or version''), db1)
        | None \<Rightarrow>
            (case insert_meta (schemaBlob version schema) db1 of
               Inl e \<Rightarrow> (Inl e, db1)
             | Inr db2 \<Rightarrow>
                 (case createAll structuralTables db2 of
                    (Inl e, db3) \<Rightarrow> (Inl e, db3)
                  | (Inr u, db3) \<Rightarrow> createDataTables schema db3))"
  have init: "initialize_with version schema db = run_inTransaction db ?fn"
    by (simp add: initialize_with_def Let_def)
  have body: "same_rows (db\<lparr>inTransaction := True\<rparr>) d"
    if "?fn (db\<lparr>inTransaction := True\<rparr>) = (r, d)" for r d
    using that by (rule initialize_body_rows)
  have flag: "inTransaction d" if "?fn (db\<lparr>inTransaction := True\<rparr>) = (r, d)" for r d
    using body [OF that] by (simp add: same_rows_def)
  from run_inTransaction_snd [of db ?fn, OF False flag]
  show ?thesis
  proof
    assume "snd (run_inTransaction db ?fn) = db"
    then show ?thesis by (simp add: init)
  next
    assume "\<exists>r d. ?fn (db\<lparr>inTransaction := True\<rparr>) = (Inr r, d) \<and>
            run_inTransaction db ?fn = (Inr r, d\<lparr>inTransaction := False\<rparr>)"
    then obtain r d where d: "?fn (db\<lparr>inTransaction := True\<rparr>) = (Inr r, d)"
      and run: "run_inTransaction db ?fn = (Inr r, d\<lparr>inTransaction := False\<rparr>)"
      by blast
    from body [OF d] False have "same_rows db (d\<lparr>inTransaction := False\<rparr>)"
      by (simp add: same_rows_def)
    then show ?thesis by (simp add: init run)
  qed
qed

lemma insert_entry_flag: "insert_entry cid k child db = Inr db' \<Longrightarrow> inTransaction db' = inTransaction db"
  by (auto dest!: insert_entry_effect)

lemma addEntries_flag:
  "addEntries schema cid k ns db = (r, db') \<Longrightarrow> inTransaction db' = inTransaction db"
proof (induction ns arbitrary: k db)
  case Nil
  then show ?case by simp
next
  case (Cons node rest)
  obtain r1 db1 where reg:
    "nontransactionallyRegisterObject schema (n_typename node) (n_id node) db = (r1, db1)"
    by (cases "nontransactionallyRegisterObject schema (n_typename node) (n_id node) db")
  note f1 = nontransactionallyRegisterObject_flag [OF reg]
  show ?case
  proof (cases r1)
    case (Inl e)
    with Cons.prems reg f1 show ?thesis by simp
  next
    case (Inr u)
    show ?thesis
    proof (cases "insert_entry cid k (n_id node) db1")
      case (Inl e)
      with Cons.prems reg Inr f1 show ?thesis by simp
    next
      case db2: (Inr db2)
      with Cons.prems reg Inr have "addEntries schema cid (k + 1) rest db2 = (r, db')" by simp
      from Cons.IH [OF this] insert_entry_flag [OF db2] f1 show ?thesis by simp
    qed
  qed
qed

lemma updateConnection_flag:
  "nontransactionallyUpdateConnection schema uid oid f q db = (r, db') \<Longrightarrow>
   inTransaction db' = inTransaction db"
  by (auto simp: nontransactionallyUpdateConnection_def split: option.splits sum.splits
      dest!: addEntries_flag update_connection_row_effect)

lemma unflag: "\<not> inTransaction db \<Longrightarrow> db\<lparr>inTransaction := False\<rparr> = db"
  by simp

lemma apply_operation_preserves:
  assumes "rows_inv schema db" and "\<not> inTransaction db"
  shows "rows_inv schema (apply_operation schema op db) \<and>
         \<not> inTransaction (apply_operation schema op db)"
proof (cases op)
  case Construct
  have "same_rows db (snd (Mirror db schema))"
    unfolding Mirror_def initialize_def by (rule initialize_rows)
  with assms Construct show ?thesis
    by (simp add: rows_inv_same_rows) (simp add: same_rows_def)
next
  case (RegisterObject t i)
  let ?fn = "nontransactionallyRegisterObject schema t i"
  have flag: "inTransaction d" if "?fn (db\<lparr>inTransaction := True\<rparr>) = (r, d)" for r d
    using nontransactionallyRegisterObject_flag [OF that] by simp
  from run_inTransaction_snd [of db ?fn, OF assms(2) flag]
  show ?thesis
  proof
    assume "snd (run_inTransaction db ?fn) = db"
    with assms RegisterObject show ?thesis by (simp add: registerObject_def)
  next
    assume "\<exists>r d. ?fn (db\<lparr>inTransaction := True\<rparr>) = (Inr r, d) \<and>
            run_inTransaction db ?fn = (Inr r, d\<lparr>inTransaction := False\<rparr>)"
    then obtain d where d: "?fn (db\<lparr>inTransaction := True\<rparr>) = (Inr (), d)"
      and run: "run_inTransaction db ?fn = (Inr (), d\<lparr>inTransaction := False\<rparr>)"
      by auto
    have "rows_inv schema d"
      using d by (rule register_preserves) (simp add: assms)
    with run RegisterObject show ?thesis by (simp add: registerObject_def)
  qed
next
  case (CreateUpdate t)
  with assms show ?thesis
    by (simp add: createUpdate_def Let_def rows_inv_def inv_keys_def inv_fields_def
        inv_unfetched_def inv_entries_def entry_indices_def)
next
  case (FindOutdated since)
  with assms show ?thesis by (simp add: findOutdated_run)
next
  case (UpdateConnection uid oid f q)
  let ?fn = "nontransactionallyUpdateConnection schema uid oid f q"
  have flag: "inTransaction d" if "?fn (db\<lparr>inTransaction := True\<rparr>) = (r, d)" for r d
    using updateConnection_flag [OF that] by simp
  from run_inTransaction_snd [of db ?fn, OF assms(2) flag]
  show ?thesis
  proof
    assume "snd (run_inTransaction db ?fn) = db"
    with assms UpdateConnection show ?thesis by (simp add: updateConnection_def)
  next
    assume "\<exists>r d. ?fn (db\<lparr>inTransaction := True\<rparr>) = (Inr r, d) \<and>
            run_inTransaction db ?fn = (Inr r, d\<lparr>inTransaction := False\<rparr>)"
    then obtain d where d: "?fn (db\<lparr>inTransaction := True\<rparr>) = (Inr (), d)"
      and run: "run_inTransaction db ?fn = (Inr (), d\<lparr>inTransaction := False\<rparr>)"
      by auto
    have "rows_inv schema d"
      using d by (rule updateConnection_preserves) (simp add: assms)
    with run UpdateConnection show ?thesis by (simp add: updateConnection_def)
  qed
qed

lemma rows_inv_empty: "rows_inv schema empty_database"
  by (simp add: rows_inv_def inv_keys_def inv_fields_def inv_unfetched_def inv_entries_def
      entry_indices_def empty_database_def)

lemma mirror_store_inv: "mirror_store schema db \<Longrightarrow> rows_inv schema db \<and> \<not> inTransaction db"
proof (induction rule: mirror_store.induct)
  case (constructed db)
  have "same_rows empty_database (snd (Mirror empty_database schema))"
    unfolding Mirror_def initialize_def by (rule initialize_rows)
  with constructed have "same_rows empty_database db" by simp
  then show ?case
    using rows_inv_empty [of schema]
    by (simp add: rows_inv_same_rows) (simp add: same_rows_def empty_database_def)
next
  case (operated db op)
  then show ?case by (simp add: apply_operation_preserves)
qed

lemma primitiveNames_simps [simp]:
  "primitiveNames [] = []"
  "primitiveNames ((f, ID) # flds) = primitiveNames flds"
  "primitiveNames ((f, PRIMITIVE) # flds) = f # primitiveNames flds"
  "primitiveNames ((f, NODE t) # flds) = primitiveNames flds"
  "primitiveNames ((f, CONNECTION t) # flds) = primitiveNames flds"
  by (simp_all add: primitiveNames_def)

lemma primitiveFieldNames_Inr:
  "primitiveFieldNames flds = Inr names \<Longrightarrow> names = primitiveNames flds"
proof (induction flds arbitrary: names)
  case Nil
  then show ?case by simp
next
  case (Cons a flds)
  obtain f t where a: "a = (f, t)" by (cases a)
  from Cons show ?case unfolding a
    by (cases t) (auto split: if_splits sum.splits)
qed

lemma primitiveFieldNames_safe:
  "list_all isSqlSafe (primitiveNames flds) \<Longrightarrow> primitiveFieldNames flds = Inr (primitiveNames flds)"
proof (induction flds)
  case Nil
  then show ?case by simp
next
  case (Cons a flds)
  obtain f t where a: "a = (f, t)" by (cases a)
  from Cons show ?case unfolding a by (cases t) auto
qed

lemma primitiveFieldNames_Inl:
  "primitiveFieldNames flds = Inl e \<Longrightarrow>
   \<exists>f \<in> set (primitiveNames flds). \<not> isSqlSafe f \<and> e = UnsafeIdentifier (''invalid field name: '' @ f)"
proof (induction flds)
  case Nil
  then show ?case by simp
next
  case (Cons a flds)
  obtain f t where a: "a = (f, t)" by (cases a)
  from Cons show ?case unfolding a
    by (cases t) (auto split: if_splits sum.splits)
qed

lemma create_entry_effect:
  "create_entry entry db = Inr db' \<Longrightarrow> db' = db\<lparr>catalog := catalog db @ [entry]\<rparr>"
  by (auto simp: create_entry_def split: if_splits)

lemma create_entry_succeeds:
  "lname entry \<notin> set (map lname (catalog db)) \<Longrightarrow> columns_ok entry \<Longrightarrow>
   create_entry entry db = Inr (db\<lparr>catalog := catalog db @ [entry]\<rparr>)"
  by (cases entry) (auto simp: create_entry_def name_exists_def lname_def columns_ok_def)

lemma createAll_effect:
  "createAll es db = (Inr (), db') \<Longrightarrow> db' = db\<lparr>catalog := catalog db @ es\<rparr>"
proof (induction es arbitrary: db)
  case Nil
  then show ?case by simp
next
  case (Cons e es)
  from Cons.prems obtain db1 where c: "create_entry e db = Inr db1"
    and r: "createAll es db1 = (Inr (), db')"
    by (auto split: sum.splits)
  from Cons.IH [OF r] create_entry_effect [OF c] show ?case by simp
qed

lemma createAll_succeeds:
  "distinct (map lname (catalog db @ es)) \<Longrightarrow> list_all columns_ok es \<Longrightarrow>
   createAll es db = (Inr (), db\<lparr>catalog := catalog db @ es\<rparr>)"
proof (induction es arbitrary: db)
  case Nil
  then show ?case by simp
next
  case (Cons e es)
  let ?db1 = "db\<lparr>catalog := catalog db @ [e]\<rparr>"
  have c: "create_entry e db = Inr ?db1"
    using Cons.prems by (intro create_entry_succeeds) auto
  have "createAll es ?db1 = (Inr (), ?db1\<lparr>catalog := catalog ?db1 @ es\<rparr>)"
    using Cons.prems by (intro Cons.IH) auto
  with c show ?case by simp
qed

lemma createDataTables_effect:
  "createDataTables schema db = (Inr (), db') \<Longrightarrow>
   db' = db\<lparr>catalog := catalog db @ dataTables schema\<rparr>"
proof (induction schema db rule: createDataTables.induct)
  case (1 db)
  then show ?case by simp
next
  case (2 typename nodeType rest db)
  show ?case
  proof (cases nodeType)
    case (UNION clauses)
    with 2 show ?thesis by simp
  next
    case (OBJECT flds)
    with "2.prems" have safe: "isSqlSafe typename" by (auto split: if_splits)
    with "2.prems" OBJECT obtain names db1 where
      names: "primitiveFieldNames flds = Inr names"
      and c: "create_entry (dataTable typename names) db = Inr db1"
      and r: "createDataTables rest db1 = (Inr (), db')"
      by (auto split: sum.splits)
    from "2.IH"(1) [OF OBJECT _ names c r] safe
    have "db' = db1\<lparr>catalog := catalog db1 @ dataTables rest\<rparr>" by simp
    with create_entry_effect [OF c] primitiveFieldNames_Inr [OF names] OBJECT
    show ?thesis by simp
  qed
qed

lemma createDataTables_succeeds:
  "list_all (\<lambda>(typename, nodeType).
        case nodeType of
          OBJECT flds \<Rightarrow> isSqlSafe typename \<and> list_all isSqlSafe (primitiveNames flds)
        | UNION clauses \<Rightarrow> True) schema \<Longrightarrow>
   list_all columns_ok (dataTables schema) \<Longrightarrow>
   distinct (map lname (catalog db @ dataTables schema)) \<Longrightarrow>
   createDataTables schema db = (Inr (), db\<lparr>catalog := catalog db @ dataTables schema\<rparr>)"
proof (induction schema db rule: createDataTables.induct)
  case (1 db)
  then show ?case by simp
next
  case (2 typename nodeType rest db)
  show ?case
  proof (cases nodeType)
    case (UNION clauses)
    with 2 show ?thesis by simp
  next
    case (OBJECT flds)
    let ?t = "dataTable typename (primitiveNames flds)"
    let ?db1 = "db\<lparr>catalog := catalog db @ [?t]\<rparr>"
    from "2.prems"(1) OBJECT have safe: "isSqlSafe typename"
      and names: "primitiveFieldNames flds = Inr (primitiveNames flds)"
      by (auto intro: primitiveFieldNames_safe)
    have c: "create_entry ?t db = Inr ?db1"
      using "2.prems"(2,3) OBJECT by (intro create_entry_succeeds) auto
    have "createDataTables rest ?db1 = (Inr (), ?db1\<lparr>catalog := catalog ?db1 @ dataTables rest\<rparr>)"
      using "2.prems" OBJECT safe by (intro "2.IH"(1) [OF OBJECT _ names c]) auto
    with safe names c OBJECT show ?thesis by simp
  qed
qed

lemma initialize_flag:
  assumes "(let db1 = create_meta_if_not_exists db0 in
        case select_meta_schema db1 of
          Some existingBlob \<Rightarrow>
            if existingBlob = blob then (Inr (), db1)
            else (Inl (IncompatibleSchema m), db1)
        | None \<Rightarrow>
            (case insert_meta blob db1 of
               Inl e \<Rightarrow> (Inl e, db1)
             | Inr db2 \<Rightarrow>
                 (case createAll structuralTables db2 of
                    (Inl e, db3) \<Rightarrow> (Inl e, db3)
                  | (Inr u, db3) \<Rightarrow> createDataTables schema db3))) = (r, db')"
  shows "inTransaction db' = inTransaction db0"
  using initialize_body_rows [OF assms] by (simp add: same_rows_def)

lemma initialize_failure:
  "initialize_with version schema db = (Inl e, db') \<Longrightarrow> db' = db"
  unfolding initialize_with_def Let_def
  by (erule run_inTransaction_failure [rotated]) (simp add: initialize_flag [unfolded Let_def])

lemma select_meta_schema_flag [simp]:
  "select_meta_schema (db\<lparr>inTransaction := b\<rparr>) = select_meta_schema db"
  by (simp add: select_meta_schema_def)

lemma name_exists_flag [simp]:
  "name_exists (db\<lparr>inTransaction := b\<rparr>) name = name_exists db name"
  by (simp add: name_exists_def)

lemma create_meta_flag:
  "create_meta_if_not_exists (db\<lparr>inTransaction := b\<rparr>) =
   (create_meta_if_not_exists db)\<lparr>inTransaction := b\<rparr>"
  by (simp add: create_meta_if_not_exists_def)

lemma create_meta_fields [simp]:
  "meta (create_meta_if_not_exists db) = meta db"
  "inTransaction (create_meta_if_not_exists db) = inTransaction db"
  by (simp_all add: create_meta_if_not_exists_def)

lemma initialize_existing:
  assumes "\<not> inTransaction db" and "meta db = (zero, existingBlob) # rest"
  shows "initialize_with version schema db =
     (if existingBlob = schemaBlob version schema
      then (Inr (), create_meta_if_not_exists db)
      else (Inl (IncompatibleSchema
              ''Database already populated with incompatible schema or version''), db))"
proof -
  have "(create_meta_if_not_exists db)\<lparr>inTransaction := True\<rparr>\<lparr>inTransaction := False\<rparr> =
      create_meta_if_not_exists db"
    using assms(1) by simp
  then show ?thesis
    using assms
    by (simp add: initialize_with_def run_inTransaction_def Let_def select_meta_schema_def
        create_meta_flag)
qed

lemma initialize_success_effect:
  assumes "initialize_with version schema db = (Inr (), db')" and "meta db = []"
  shows "db' = db\<lparr>catalog := catalog (create_meta_if_not_exists db) @ structuralTables @
                     dataTables schema,
                  meta := [(0, schemaBlob version schema)]\<rparr>"
proof -
  let ?blob = "schemaBlob version schema"
  let ?fn = "\<lambda>db0. let db1 = create_meta_if_not_exists db0 in
        case select_meta_schema db1 of
          Some existingBlob \<Rightarrow>
            if existingBlob = ?blob then (Inr (), db1)
            else (Inl (IncompatibleSchema
                    ''Database already populated with incompatible schema or version''), db1)
        | None \<Rightarrow>
            (case insert_meta ?blob db1 of
               Inl e \<Rightarrow> (Inl e, db1)
             | Inr db2 \<Rightarrow>
                 (case createAll structuralTables db2 of
                    (Inl e, db3) \<Rightarrow> (Inl e, db3)
                  | (Inr u, db3) \<Rightarrow> createDataTables schema db3))"
  define fn where "fn = ?fn"
  have init: "initialize_with version schema db = run_inTransaction db fn"
    by (simp add: initialize_with_def Let_def fn_def)
  have flag: "inTransaction d" if "fn (db\<lparr>inTransaction := True\<rparr>) = (r, d)" for r d
    using initialize_flag [OF that [unfolded fn_def]] by simp
  have "\<not> inTransaction db \<and>
      (\<exists>d. fn (db\<lparr>inTransaction := True\<rparr>) = (Inr (), d) \<and> db' = d\<lparr>inTransaction := False\<rparr>)"
    by (rule run_inTransaction_Inr [OF assms(1) [unfolded init]]) (rule flag)
  then obtain d where nt: "\<not> inTransaction db"
    and d0: "fn (db\<lparr>inTransaction := True\<rparr>) = (Inr (), d)"
    and db': "db' = d\<lparr>inTransaction := False\<rparr>"
    by blast
  note d = d0 [unfolded fn_def]
  let ?db1 = "create_meta_if_not_exists (db\<lparr>inTransaction := True\<rparr>)"
  have m1: "meta ?db1 = []" using assms(2) by (simp add: create_meta_if_not_exists_def)
  then have none: "select_meta_schema ?db1 = None" by (simp add: select_meta_schema_def)
  have ins: "insert_meta ?blob ?db1 = Inr (?db1\<lparr>meta := [(0, ?blob)]\<rparr>)"
    using m1 by (simp add: insert_meta_def)
  let ?db2 = "?db1\<lparr>meta := [(0, ?blob)]\<rparr>"
  from d none ins obtain db3 where
    c: "createAll structuralTables ?db2 = (Inr (), db3)"
    and t: "createDataTables schema db3 = (Inr (), d)"
    by (auto simp: Let_def split: prod.splits sum.splits)
  note db3 = createAll_effect [OF c]
  note dd = createDataTables_effect [OF t]
  have c1: "catalog ?db1 = catalog (create_meta_if_not_exists db)"
    by (simp add: create_meta_if_not_exists_def name_exists_def)
  have "d = db\<lparr>inTransaction := True,
              catalog := catalog (create_meta_if_not_exists db) @ structuralTables @
                     dataTables schema,
              meta := [(0, schemaBlob version schema)]\<rparr>"
    unfolding dd db3 using c1
    by (simp add: create_meta_if_not_exists_def name_exists_def)
  with db' nt show ?thesis by simp
qed

lemma initialize_empty_succeeds:
  assumes "\<not> inTransaction db" and "catalog db = []" and "meta db = []"
    and "sqlSafeSchema schema"
  shows "initialize_with version schema db =
     (Inr (), db\<lparr>catalog := metaTable # structuralTables @ dataTables schema,
                  meta := [(0, schemaBlob version schema)]\<rparr>)"
proof -
  let ?blob = "schemaBlob version schema"
  let ?db0 = "db\<lparr>inTransaction := True\<rparr>"
  let ?db1 = "?db0\<lparr>catalog := [metaTable]\<rparr>"
  let ?db2 = "?db1\<lparr>meta := [(0, ?blob)]\<rparr>"
  let ?db3 = "?db2\<lparr>catalog := catalog ?db2 @ structuralTables\<rparr>"
  let ?db4 = "?db3\<lparr>catalog := catalog ?db3 @ dataTables schema\<rparr>"
  from assms(4) have safe: "list_all (\<lambda>(typename, nodeType).
        case nodeType of
          OBJECT flds \<Rightarrow> isSqlSafe typename \<and> list_all isSqlSafe (primitiveNames flds)
        | UNION clauses \<Rightarrow> True) schema"
    and cols: "list_all columns_ok (dataTables schema)"
    and dist: "distinct (map lname (metaTable # structuralTables @ dataTables schema))"
    by (simp_all add: sqlSafeSchema_def identifiersSafe_def namesDistinct_def)
  have 1: "create_meta_if_not_exists ?db0 = ?db1"
    using assms(2) by (simp add: create_meta_if_not_exists_def name_exists_def)
  have 2: "select_meta_schema ?db1 = None"
    using assms(3) by (simp add: select_meta_schema_def)
  have 3: "insert_meta ?blob ?db1 = Inr ?db2"
    using assms(3) by (simp add: insert_meta_def)
  have sc: "list_all columns_ok structuralTables"
    by (simp add: structuralTables_def columns_ok_def sql_lower_def)
  have 4: "createAll structuralTables ?db2 = (Inr (), ?db3)"
    using dist sc by (intro createAll_succeeds) simp_all
  have 5: "createDataTables schema ?db3 = (Inr (), ?db4)"
    using dist safe cols by (intro createDataTables_succeeds) simp_all
  have "initialize_with version schema db = (Inr (), ?db4\<lparr>inTransaction := False\<rparr>)"
    using assms(1) 1 2 3 4 5
    by (simp add: initialize_with_def run_inTransaction_def Let_def)
  moreover have "?db4\<lparr>inTransaction := False\<rparr> =
      db\<lparr>catalog := metaTable # structuralTables @ dataTables schema,
         meta := [(0, schemaBlob version schema)]\<rparr>"
    using assms(1) by simp
  ultimately show ?thesis by simp
qed

lemma primitiveFieldNames_unsafe:
  "\<not> list_all isSqlSafe (primitiveNames flds) \<Longrightarrow> \<exists>e. primitiveFieldNames flds = Inl e"
proof (induction flds)
  case Nil
  then show ?case by simp
next
  case (Cons a flds)
  obtain f t where a: "a = (f, t)" by (cases a)
  from Cons show ?case unfolding a
    by (cases t) (auto split: sum.splits)
qed

lemma create_entry_error:
  "create_entry entry db = Inl e \<Longrightarrow> \<exists>m. e = SqliteError m"
  by (auto simp: create_entry_def split: if_splits)

lemma createAll_error:
  "createAll es db = (Inl e, db') \<Longrightarrow> \<exists>m. e = SqliteError m"
proof (induction es arbitrary: db)
  case Nil
  then show ?case by simp
next
  case (Cons a es)
  show ?case
  proof (cases "create_entry a db")
    case (Inl e')
    with Cons.prems have "e = e'" by simp
    with create_entry_error [OF Inl] show ?thesis by simp
  next
    case (Inr db1)
    with Cons.prems have "createAll es db1 = (Inl e, db')" by simp
    then show ?thesis by (rule Cons.IH)
  qed
qed

lemma createDataTables_error:
  "createDataTables schema db = (Inl e, db') \<Longrightarrow>
   (\<exists>m. e = SqliteError m) \<or> unsafeIdentifierError schema e"
proof (induction schema db rule: createDataTables.induct)
  case (1 db)
  then show ?case by simp
next
  case (2 typename nodeType rest db)
  have mono: "unsafeIdentifierError rest e \<Longrightarrow> unsafeIdentifierError ((typename, nodeType) # rest) e"
    by (simp add: unsafeIdentifierError_def)
  show ?case
  proof (cases nodeType)
    case (UNION clauses)
    with "2.prems" have "createDataTables rest db = (Inl e, db')" by simp
    from "2.IH"(2) [OF UNION this] mono show ?thesis by blast
  next
    case (OBJECT flds)
    show ?thesis
    proof (cases "isSqlSafe typename")
      case False
      with "2.prems" OBJECT
      have "e = UnsafeIdentifier (''invalid object type name: '' @ typename)" by simp
      with False OBJECT have "unsafeIdentifierError ((typename, nodeType) # rest) e"
        by (simp add: unsafeIdentifierError_def)
      then show ?thesis ..
    next
      case True
      show ?thesis
      proof (cases "primitiveFieldNames flds")
        case (Inl e')
        with "2.prems" OBJECT True have e: "e = e'" by simp
        from primitiveFieldNames_Inl [OF Inl] obtain f where
          f: "f \<in> set (primitiveNames flds)" "\<not> isSqlSafe f"
            "e' = UnsafeIdentifier (''invalid field name: '' @ f)"
          by blast
        from f have "list_ex (\<lambda>f. \<not> isSqlSafe f \<and> e' = UnsafeIdentifier (''invalid field name: '' @ f))
              (primitiveNames flds)"
          unfolding list_ex_iff by (intro bexI [of _ f] conjI)
        with e OBJECT have "unsafeIdentifierError ((typename, nodeType) # rest) e"
          by (simp add: unsafeIdentifierError_def)
        then show ?thesis ..
      next
        case (Inr names)
        show ?thesis
        proof (cases "create_entry (dataTable typename names) db")
          case (Inl e')
          with "2.prems" OBJECT True Inr have "e = e'" by simp
          with create_entry_error [OF Inl] show ?thesis by simp
        next
          case c: (Inr db1)
          with "2.prems" OBJECT True Inr have "createDataTables rest db1 = (Inl e, db')" by simp
          from "2.IH"(1) [OF OBJECT _ Inr c this] True mono show ?thesis by blast
        qed
      qed
    qed
  qed
qed

lemma createDataTables_unsafe:
  "\<not> identifiersSafe schema \<Longrightarrow> \<exists>e db'. createDataTables schema db = (Inl e, db')"
proof (induction schema db rule: createDataTables.induct)
  case (1 db)
  then show ?case by (simp add: identifiersSafe_def)
next
  case (2 typename nodeType rest db)
  show ?case
  proof (cases nodeType)
    case (UNION clauses)
    with "2.prems" have "\<not> identifiersSafe rest" by (simp add: identifiersSafe_def)
    from "2.IH"(2) [OF UNION this] UNION show ?thesis by simp
  next
    case (OBJECT flds)
    show ?thesis
    proof (cases "isSqlSafe typename")
      case False
      with OBJECT show ?thesis by simp
    next
      case True
      show ?thesis
      proof (cases "primitiveFieldNames flds")
        case (Inl e')
        with OBJECT True show ?thesis by simp
      next
        case (Inr names)
        then have "list_all isSqlSafe (primitiveNames flds)"
          using primitiveFieldNames_unsafe [of flds] by auto
        with "2.prems" OBJECT True have rest: "\<not> identifiersSafe rest"
          by (simp add: identifiersSafe_def)
        show ?thesis
        proof (cases "create_entry (dataTable typename names) db")
          case (Inl e')
          with OBJECT True Inr show ?thesis by simp
        next
          case c: (Inr db1)
          from "2.IH"(1) [OF OBJECT _ Inr c rest] True OBJECT Inr c show ?thesis by simp
        qed
      qed
    qed
  qed
qed

lemma createDataTables_unsafe_identifier:
  "\<not> identifiersSafe schema \<Longrightarrow>
   list_all columns_ok (dataTables schema) \<Longrightarrow>
   distinct (map lname (catalog db @ dataTables schema)) \<Longrightarrow>
   \<exists>m db'. createDataTables schema db = (Inl (UnsafeIdentifier m), db')"
proof (induction schema db rule: createDataTables.induct)
  case (1 db)
  then show ?case by (simp add: identifiersSafe_def)
next
  case (2 typename nodeType rest db)
  show ?case
  proof (cases nodeType)
    case (UNION clauses)
    with "2.prems" have "\<not> identifiersSafe rest" by (simp add: identifiersSafe_def)
    from "2.IH"(2) [OF UNION this] "2.prems"(2,3) UNION show ?thesis by simp
  next
    case (OBJECT flds)
    show ?thesis
    proof (cases "isSqlSafe typename")
      case False
      with OBJECT show ?thesis by simp
    next
      case True
      show ?thesis
      proof (cases "primitiveFieldNames flds")
        case (Inl e')
        from primitiveFieldNames_Inl [OF Inl] obtain m where "e' = UnsafeIdentifier m" by blast
        with Inl OBJECT True show ?thesis by simp
      next
        case (Inr names)
        then have safe: "list_all isSqlSafe (primitiveNames flds)"
          using primitiveFieldNames_unsafe [of flds] by auto
        from primitiveFieldNames_Inr [OF Inr] have names: "names = primitiveNames flds" .
        with "2.prems" OBJECT True safe have rest: "\<not> identifiersSafe rest"
          by (simp add: identifiersSafe_def)
        let ?t = "dataTable typename (primitiveNames flds)"
        let ?db1 = "db\<lparr>catalog := catalog db @ [?t]\<rparr>"
        have c: "create_entry ?t db = Inr ?db1"
          using "2.prems"(2,3) OBJECT by (intro create_entry_succeeds) auto
        from Inr names have Inr': "primitiveFieldNames flds = Inr (primitiveNames flds)" by simp
        have "\<exists>m db'. createDataTables rest ?db1 = (Inl (UnsafeIdentifier m), db')"
        proof (rule "2.IH"(1) [OF OBJECT _ Inr' c rest])
          show "\<not> \<not> isSqlSafe typename" using True by simp
          show "list_all columns_ok (dataTables rest)" using "2.prems"(2) OBJECT by simp
          show "distinct (map lname (catalog ?db1 @ dataTables rest))"
            using "2.prems"(3) OBJECT by simp
        qed
        with OBJECT True Inr c names show ?thesis by simp
      qed
    qed
  qed
qed

lemma initialize_no_meta:
  assumes "\<not> inTransaction db" and "meta db = []"
  shows "initialize_with version schema db =
     (case createAll structuralTables
             ((create_meta_if_not_exists (db\<lparr>inTransaction := True\<rparr>))
                \<lparr>meta := [(0, schemaBlob version schema)]\<rparr>) of
        (Inl e, db3) \<Rightarrow> (Inl e, db)
      | (Inr u, db3) \<Rightarrow>
          (case createDataTables schema db3 of
             (Inl e, db4) \<Rightarrow> (Inl e, db)
           | (Inr u, db4) \<Rightarrow> (Inr u, db4\<lparr>inTransaction := False\<rparr>)))"
proof -
  let ?blob = "schemaBlob version schema"
  let ?db1 = "create_meta_if_not_exists (db\<lparr>inTransaction := True\<rparr>)"
  let ?db2 = "?db1\<lparr>meta := [(0, ?blob)]\<rparr>"
  have m1: "meta ?db1 = []" using assms(2) by simp
  then have none: "select_meta_schema ?db1 = None" by (simp add: select_meta_schema_def)
  have ins: "insert_meta ?blob ?db1 = Inr ?db2"
    using m1 by (simp add: insert_meta_def)
  obtain r3 db3 where c: "createAll structuralTables ?db2 = (r3, db3)" by force
  have f3: "inTransaction db3"
    using createAll_rows [OF c] by (simp add: same_rows_def)
  obtain r4 db4 where t: "createDataTables schema db3 = (r4, db4)" by force
  have f4: "inTransaction db4"
    using createDataTables_rows [OF t] f3 by (simp add: same_rows_def)
  show ?thesis
    using assms(1) none ins c t f3 f4
    by (simp add: initialize_with_def run_inTransaction_def Let_def split: sum.splits)
qed

lemma initialize_error:
  assumes "\<not> inTransaction db" and "meta db = []"
    and "initialize_with version schema db = (Inl e, db')"
  shows "(\<exists>m. e = SqliteError m) \<or> unsafeIdentifierError schema e"
proof -
  let ?db2 = "(create_meta_if_not_exists (db\<lparr>inTransaction := True\<rparr>))
                \<lparr>meta := [(0, schemaBlob version schema)]\<rparr>"
  obtain r3 db3 where c: "createAll structuralTables ?db2 = (r3, db3)" by force
  obtain r4 db4 where t: "createDataTables schema db3 = (r4, db4)" by force
  note init = assms(3) [unfolded initialize_no_meta [OF assms(1,2)] c]
  show ?thesis
  proof (cases r3)
    case (Inl e3)
    with init have "e = e3" by simp
    with createAll_error [OF c [unfolded Inl]] show ?thesis by simp
  next
    case (Inr u)
    show ?thesis
    proof (cases r4)
      case (Inl e4)
      with init Inr t have "e = e4" by simp
      with createDataTables_error [OF t [unfolded Inl]] show ?thesis by simp
    next
      case r: (Inr u')
      with init Inr t show ?thesis by simp
    qed
  qed
qed

lemma initialize_unsafe:
  assumes "\<not> inTransaction db" and "meta db = []" and "\<not> identifiersSafe schema"
  shows "\<exists>e. initialize_with version schema db = (Inl e, db)"
proof -
  let ?db2 = "(create_meta_if_not_exists (db\<lparr>inTransaction := True\<rparr>))
                \<lparr>meta := [(0, schemaBlob version schema)]\<rparr>"
  obtain r3 db3 where c: "createAll structuralTables ?db2 = (r3, db3)" by force
  from createDataTables_unsafe [OF assms(3)]
  obtain e4 db4 where t: "createDataTables schema db3 = (Inl e4, db4)" by blast
  show ?thesis
    unfolding initialize_no_meta [OF assms(1,2)] c
    by (cases r3) (simp_all add: t)
qed

lemma initialize_empty_unsafe:
  assumes "\<not> inTransaction db" and "catalog db = []" and "meta db = []"
    and "namesDistinct schema" and "\<not> identifiersSafe schema"
  shows "\<exists>m. initialize_with version schema db = (Inl (UnsafeIdentifier m), db)"
proof -
  let ?blob = "schemaBlob version schema"
  let ?db0 = "db\<lparr>inTransaction := True\<rparr>"
  let ?db1 = "?db0\<lparr>catalog := [metaTable]\<rparr>"
  let ?db2 = "?db1\<lparr>meta := [(0, ?blob)]\<rparr>"
  let ?db3 = "?db2\<lparr>catalog := catalog ?db2 @ structuralTables\<rparr>"
  from assms(4) have cols: "list_all columns_ok (dataTables schema)"
    and dist: "distinct (map lname (metaTable # structuralTables @ dataTables schema))"
    by (simp_all add: namesDistinct_def)
  have 1: "create_meta_if_not_exists ?db0 = ?db1"
    using assms(2) by (simp add: create_meta_if_not_exists_def name_exists_def)
  have sc: "list_all columns_ok structuralTables"
    by (simp add: structuralTables_def columns_ok_def sql_lower_def)
  have 4: "createAll structuralTables ?db2 = (Inr (), ?db3)"
    using dist sc by (intro createAll_succeeds) simp_all
  have "\<exists>m db'. createDataTables schema ?db3 = (Inl (UnsafeIdentifier m), db')"
    using dist by (intro createDataTables_unsafe_identifier assms(5) cols) simp
  then obtain m db4 where 5: "createDataTables schema ?db3 = (Inl (UnsafeIdentifier m), db4)"
    by blast
  have "initialize_with version schema db = (Inl (UnsafeIdentifier m), db)"
    unfolding initialize_no_meta [OF assms(1,3)] 1 4 using 5 by simp
  then show ?thesis ..
qed

lemma Mirror_empty_database:
  "sqlSafeSchema schema \<Longrightarrow>
   Mirror empty_database schema = (Inr (), initialized_store MIRROR_VERSION schema)"
  unfolding Mirror_def initialize_def
  by (subst initialize_empty_succeeds)
    (simp_all add: empty_database_def initialized_store_def)

lemma sqlSafeSchema_github: "sqlSafeSchema githubSchema"
  by code_simp













lemmas eval_defs =
  initialized_store_def registerObject_def run_inTransaction_def
  nontransactionallyRegisterObject_def select_typename_def githubSchema_def insert_object_def
  insert_connection_def next_rowid_def createUpdate_def updateConnection_def
  nontransactionallyUpdateConnection_def select_connection_rowid_def update_connection_row_def
  select_next_index_def insert_entry_def objectPrototypeMembers_def

lemma mirror_store_initialized:
  "mirror_store githubSchema (initialized_store MIRROR_VERSION githubSchema)"
  by (rule mirror_store.constructed) (rule Mirror_empty_database [OF sqlSafeSchema_github])

lemma mirror_store_S4: "mirror_store githubSchema store_S4"
proof -
  have "apply_operation githubSchema (RegisterObject ''Issue'' ''my-favorite-id'')
      (initialized_store MIRROR_VERSION githubSchema) = store_S4"
    by (simp add: store_S4_def eval_defs)
  with mirror_store.operated [OF mirror_store_initialized] show ?thesis by metis
qed

lemma mirror_store_two_repos: "mirror_store githubSchema store_two_repos"
proof -
  let ?s0 = "initialized_store MIRROR_VERSION githubSchema"
  let ?s1 = "apply_operation githubSchema (RegisterObject ''Repository'' ''repo:a'') ?s0"
  let ?s2 = "apply_operation githubSchema (RegisterObject ''Repository'' ''repo:b'') ?s1"
  let ?s3 = "apply_operation githubSchema (CreateUpdate 100) ?s2"
  let ?s4 = "apply_operation githubSchema (UpdateConnection 1 ''repo:b'' ''issues''
      \<lparr>totalCount = 5, pageInfo = \<lparr>hasNextPage = True, endCursor = None\<rparr>, nodes = []\<rparr>) ?s3"
  have "mirror_store githubSchema ?s4"
    by (intro mirror_store.operated mirror_store_initialized)
  moreover have "?s4 = store_two_repos"
    by (simp add: store_two_repos_def eval_defs)
  ultimately show ?thesis by simp
qed

lemma owner_rows_flag [simp]: "owner_rows (db\<lparr>inTransaction := b\<rparr>) i = owner_rows db i"
  by (simp add: owner_rows_def)

lemma owner_rows_append:
  assumes "connections db' = map (fetched_row cid uid n h cur) (connections db) @ cs"
    and "\<forall>c \<in> set cs. c_object_id c \<noteq> i"
  shows "owner_rows db' i = owner_rows db i"
proof -
  have "filter (\<lambda>c. c_object_id c = i) cs = []"
    using assms(2) by (auto simp: filter_empty_conv)
  then show ?thesis
    unfolding owner_rows_def assms(1)
    by (simp add: filter_owner_map_fetched comp_def)
qed

lemma owner_rows_append_plain:
  assumes "connections db' = connections db @ cs"
    and "\<forall>c \<in> set cs. c_object_id c \<noteq> i"
  shows "owner_rows db' i = owner_rows db i"
proof -
  have "filter (\<lambda>c. c_object_id c = i) cs = []"
    using assms(2) by (auto simp: filter_empty_conv)
  then show ?thesis
    unfolding owner_rows_def assms(1) by simp
qed

lemma register_owner_rows:
  assumes "nontransactionallyRegisterObject schema t j db = (Inr (), db')"
    and "i \<in> set (map o_id (objects db))"
  shows "owner_rows db' i = owner_rows db i"
proof -
  from register_effect2 [OF assms(1)] obtain os cs where
    db': "db' = db\<lparr>objects := objects db @ os, connections := connections db @ cs\<rparr>"
    and cs: "\<forall>c \<in> set cs. c_object_id c \<notin> set (map o_id (objects db)) \<and> unfetched c"
    by blast
  show ?thesis
  proof (rule owner_rows_append_plain)
    show "connections db' = connections db @ cs" unfolding db' by simp
    show "\<forall>c \<in> set cs. c_object_id c \<noteq> i" using cs assms(2) by auto
  qed
qed

lemma updateConnection_owner_rows:
  assumes "nontransactionallyUpdateConnection schema uid oid f q db = (Inr (), db')"
    and "i \<in> set (map o_id (objects db))"
  shows "owner_rows db' i = owner_rows db i"
proof -
  from updateConnection_effect [OF assms(1)] obtain cid os cs es where
    db': "db' = db\<lparr>objects := objects db @ os,
              connections := map (fetched_row cid uid (totalCount q) (hasNextPageColumn q)
                 (endCursor (pageInfo q))) (connections db) @ cs,
              connection_entries := connection_entries db @ es\<rparr>"
    and cs: "\<forall>c \<in> set cs. c_object_id c \<notin> set (map o_id (objects db)) \<and> unfetched c"
    by blast
  show ?thesis
  proof (rule owner_rows_append)
    show "connections db' = map (fetched_row cid uid (totalCount q) (hasNextPageColumn q)
                 (endCursor (pageInfo q))) (connections db) @ cs"
      unfolding db' by simp
    show "\<forall>c \<in> set cs. c_object_id c \<noteq> i" using cs assms(2) by auto
  qed
qed

lemma apply_operation_owner_rows:
  assumes "\<not> inTransaction db" and "i \<in> set (map o_id (objects db))"
  shows "owner_rows (apply_operation schema op db) i = owner_rows db i"
proof (cases op)
  case Construct
  have "same_rows db (snd (Mirror db schema))"
    unfolding Mirror_def initialize_def by (rule initialize_rows)
  with Construct show ?thesis by (simp add: owner_rows_def same_rows_def)
next
  case (RegisterObject t j)
  let ?fn = "nontransactionallyRegisterObject schema t j"
  have flag: "inTransaction d" if "?fn (db\<lparr>inTransaction := True\<rparr>) = (r, d)" for r d
    using nontransactionallyRegisterObject_flag [OF that] by simp
  from run_inTransaction_snd [of db ?fn, OF assms(1) flag]
  show ?thesis
  proof
    assume "snd (run_inTransaction db ?fn) = db"
    with RegisterObject show ?thesis by (simp add: registerObject_def)
  next
    assume "\<exists>r d. ?fn (db\<lparr>inTransaction := True\<rparr>) = (Inr r, d) \<and>
            run_inTransaction db ?fn = (Inr r, d\<lparr>inTransaction := False\<rparr>)"
    then obtain d where d: "?fn (db\<lparr>inTransaction := True\<rparr>) = (Inr (), d)"
      and run: "run_inTransaction db ?fn = (Inr (), d\<lparr>inTransaction := False\<rparr>)"
      by auto
    have "owner_rows d i = owner_rows (db\<lparr>inTransaction := True\<rparr>) i"
      using d by (rule register_owner_rows) (use assms in simp)
    with run RegisterObject show ?thesis by (simp add: registerObject_def)
  qed
next
  case (CreateUpdate t)
  then show ?thesis by (simp add: createUpdate_def Let_def owner_rows_def)
next
  case (FindOutdated since)
  with assms show ?thesis by (simp add: findOutdated_run)
next
  case (UpdateConnection uid oid f q)
  let ?fn = "nontransactionallyUpdateConnection schema uid oid f q"
  have flag: "inTransaction d" if "?fn (db\<lparr>inTransaction := True\<rparr>) = (r, d)" for r d
    using updateConnection_flag [OF that] by simp
  from run_inTransaction_snd [of db ?fn, OF assms(1) flag]
  show ?thesis
  proof
    assume "snd (run_inTransaction db ?fn) = db"
    with UpdateConnection show ?thesis by (simp add: updateConnection_def)
  next
    assume "\<exists>r d. ?fn (db\<lparr>inTransaction := True\<rparr>) = (Inr r, d) \<and>
            run_inTransaction db ?fn = (Inr r, d\<lparr>inTransaction := False\<rparr>)"
    then obtain d where d: "?fn (db\<lparr>inTransaction := True\<rparr>) = (Inr (), d)"
      and run: "run_inTransaction db ?fn = (Inr (), d\<lparr>inTransaction := False\<rparr>)"
      by auto
    have "owner_rows d i = owner_rows (db\<lparr>inTransaction := True\<rparr>) i"
      using d by (rule updateConnection_owner_rows) (use assms in simp)
    with run UpdateConnection show ?thesis by (simp add: updateConnection_def)
  qed
qed

lemma registerObject_fresh:
  assumes "\<not> inTransaction db" and "inv_keys db"
    and "i \<notin> set (map o_id (objects db))" and "map_of schema t = Some (OBJECT flds)"
    and "distinct (map fst flds)"
  shows "\<exists>cs. registerObject schema t i db =
           (Inr (), db\<lparr>objects := objects db @
                       [\<lparr>o_id = i, o_last_update = None, o_typename = t\<rparr>],
                     connections := connections db @ cs\<rparr>) \<and>
           map c_fieldname cs = connectionNames flds \<and>
           (\<forall>c \<in> set cs. c_object_id c = i \<and> unfetched c)"
proof -
  let ?db0 = "db\<lparr>inTransaction := True\<rparr>"
  have "\<exists>d. nontransactionallyRegisterObject schema t i ?db0 = (Inr (), d)"
    using assms by (intro register_fresh_succeeds [where flds = flds]) (auto simp: inv_keys_def)
  then obtain d where d: "nontransactionallyRegisterObject schema t i ?db0 = (Inr (), d)" ..
  from register_effect [OF d] assms(3,4) obtain cs where
    dd: "d = ?db0\<lparr>objects := objects ?db0 @
                       [\<lparr>o_id = i, o_last_update = None, o_typename = t\<rparr>],
                     connections := connections ?db0 @ cs\<rparr>"
    and cs: "map c_fieldname cs = connectionNames flds"
      "\<forall>c \<in> set cs. c_object_id c = i \<and> unfetched c"
    by (auto dest: select_typename_Some_in)
  have "registerObject schema t i db = (Inr (), d\<lparr>inTransaction := False\<rparr>)"
    using assms(1) d dd by (simp add: registerObject_def run_inTransaction_def)
  moreover have "d\<lparr>inTransaction := False\<rparr> =
      db\<lparr>objects := objects db @ [\<lparr>o_id = i, o_last_update = None, o_typename = t\<rparr>],
         connections := connections db @ cs\<rparr>"
    unfolding dd using assms(1) by simp
  ultimately show ?thesis using cs by auto
qed

text \<open>
  C6. In every store that only the mirror has written: each registered object has an
  object type of the schema, and the (object_id, fieldname) pairs of its rows in
  \<open>connections\<close> are exactly its id with the connection fields of that type, one row per
  field in the order of the type; \<open>registerObject\<close> of an unregistered id with an object
  type adds the object with \<open>last_update\<close> NULL and one row per connection field with
  \<open>last_update\<close>, \<open>total_count\<close>, \<open>has_next_page\<close> and \<open>end_cursor\<close> NULL; and no
  operation changes which connection rows (rowid, owner, field) a registered object has.
\<close>

theorem connections_are_the_connection_fields:
  assumes "mirror_store schema db"
  shows "(\<forall>obj \<in> set (objects db). \<exists>flds.
            map_of schema (o_typename obj) = Some (OBJECT flds) \<and>
            {(c_object_id c, c_fieldname c) | c.
               c \<in> set (connections db) \<and> c_object_id c = o_id obj} =
              {(o_id obj, f) | f. f \<in> set (connectionNames flds)} \<and>
            map c_fieldname (filter (\<lambda>c. c_object_id c = o_id obj) (connections db)) =
              connectionNames flds) \<and>
         (\<forall>typename i flds.
            i \<notin> set (map o_id (objects db)) \<and> map_of schema typename = Some (OBJECT flds) \<and>
            distinct (map fst flds) \<longrightarrow>
            (\<exists>cs. registerObject schema typename i db =
               (Inr (), db\<lparr>objects := objects db @
                           [\<lparr>o_id = i, o_last_update = None, o_typename = typename\<rparr>],
                         connections := connections db @ cs\<rparr>) \<and>
               map c_fieldname cs = connectionNames flds \<and>
               (\<forall>c \<in> set cs. c_object_id c = i \<and> c_last_update c = None \<and>
                  c_total_count c = None \<and> c_has_next_page c = None \<and>
                  c_end_cursor c = None))) \<and>
         (\<forall>op. \<forall>obj \<in> set (objects db).
            owner_rows (apply_operation schema op db) (o_id obj) = owner_rows db (o_id obj))"
proof (intro conjI ballI allI impI)
  from mirror_store_inv [OF assms] have inv: "rows_inv schema db" and nt: "\<not> inTransaction db"
    by simp_all
  {
    fix obj assume obj: "obj \<in> set (objects db)"
    from inv obj obtain flds where
      flds: "map_of schema (o_typename obj) = Some (OBJECT flds)"
      and names: "map c_fieldname (filter (\<lambda>c. c_object_id c = o_id obj) (connections db)) =
          connectionNames flds"
      by (auto simp: rows_inv_def inv_fields_def)
    have "c_fieldname ` {c \<in> set (connections db). c_object_id c = o_id obj} =
        set (connectionNames flds)"
      using arg_cong [OF names, of set] by simp
    then have "{(c_object_id c, c_fieldname c) | c.
               c \<in> set (connections db) \<and> c_object_id c = o_id obj} =
              {(o_id obj, f) | f. f \<in> set (connectionNames flds)}"
      by (auto simp: image_iff set_eq_iff) metis
    with flds names
    show "\<exists>flds.
            map_of schema (o_typename obj) = Some (OBJECT flds) \<and>
            {(c_object_id c, c_fieldname c) | c.
               c \<in> set (connections db) \<and> c_object_id c = o_id obj} =
              {(o_id obj, f) | f. f \<in> set (connectionNames flds)} \<and>
            map c_fieldname (filter (\<lambda>c. c_object_id c = o_id obj) (connections db)) =
              connectionNames flds"
      by blast
  }
  {
    fix typename i flds
    assume h: "i \<notin> set (map o_id (objects db)) \<and> map_of schema typename = Some (OBJECT flds) \<and>
            distinct (map fst flds)"
    from inv have "inv_keys db" by (simp add: rows_inv_def)
    from registerObject_fresh [OF nt this, of i schema typename flds] h
    show "\<exists>cs. registerObject schema typename i db =
               (Inr (), db\<lparr>objects := objects db @
                           [\<lparr>o_id = i, o_last_update = None, o_typename = typename\<rparr>],
                         connections := connections db @ cs\<rparr>) \<and>
               map c_fieldname cs = connectionNames flds \<and>
               (\<forall>c \<in> set cs. c_object_id c = i \<and> c_last_update c = None \<and>
                  c_total_count c = None \<and> c_has_next_page c = None \<and>
                  c_end_cursor c = None)"
      by (simp add: unfetched_def)
  }
  {
    fix op obj assume "obj \<in> set (objects db)"
    then show "owner_rows (apply_operation schema op db) (o_id obj) = owner_rows db (o_id obj)"
      by (intro apply_operation_owner_rows nt) simp
  }
qed

theorem connections_are_the_connection_fields_witness:
  "mirror_store githubSchema store_S4 \<and>
   map c_fieldname (filter (\<lambda>c. c_object_id c = ''my-favorite-id'') (connections store_S4)) =
     [''comments''] \<and>
   (\<exists>cs. registerObject githubSchema ''Repository'' ''repo:ab/cd'' store_S4 =
      (Inr (), store_S4\<lparr>objects := objects store_S4 @
          [\<lparr>o_id = ''repo:ab/cd'', o_last_update = None, o_typename = ''Repository''\<rparr>],
          connections := connections store_S4 @ cs\<rparr>) \<and>
      map c_fieldname cs = [''issues'']) \<and>
   owner_rows (apply_operation githubSchema (RegisterObject ''Repository'' ''repo:ab/cd'') store_S4)
     ''my-favorite-id'' = owner_rows store_S4 ''my-favorite-id''"
proof -
  let ?obj = "\<lparr>o_id = ''my-favorite-id'', o_last_update = None, o_typename = ''Issue''\<rparr>"
  let ?flds = "[(''id'', ID), (''url'', PRIMITIVE), (''issues'', CONNECTION ''Issue'')]"
  note T = connections_are_the_connection_fields [OF mirror_store_S4]
  have obj: "?obj \<in> set (objects store_S4)" by (simp add: store_S4_def)
  have issue: "map_of githubSchema ''Issue'' = Some (OBJECT
      [(''id'', ID), (''url'', PRIMITIVE), (''author'', NODE ''Actor''),
       (''parent'', NODE ''Repository''), (''title'', PRIMITIVE),
       (''comments'', CONNECTION ''IssueComment'')])"
    by (simp add: githubSchema_def)
  from T [THEN conjunct1, THEN bspec, OF obj] issue
  have a: "map c_fieldname (filter (\<lambda>c. c_object_id c = ''my-favorite-id'')
      (connections store_S4)) = [''comments'']"
    by auto
  have repo: "''repo:ab/cd'' \<notin> set (map o_id (objects store_S4)) \<and>
      map_of githubSchema ''Repository'' = Some (OBJECT ?flds) \<and> distinct (map fst ?flds)"
    by (simp add: store_S4_def githubSchema_def)
  from T [THEN conjunct2, THEN conjunct1, THEN spec, THEN spec, THEN spec, THEN mp, OF repo]
  have b: "\<exists>cs. registerObject githubSchema ''Repository'' ''repo:ab/cd'' store_S4 =
      (Inr (), store_S4\<lparr>objects := objects store_S4 @
          [\<lparr>o_id = ''repo:ab/cd'', o_last_update = None, o_typename = ''Repository''\<rparr>],
          connections := connections store_S4 @ cs\<rparr>) \<and>
      map c_fieldname cs = [''issues'']"
    by auto
  from T [THEN conjunct2, THEN conjunct2, THEN spec,
      of "RegisterObject ''Repository'' ''repo:ab/cd''", THEN bspec, OF obj]
  have c: "owner_rows (apply_operation githubSchema
      (RegisterObject ''Repository'' ''repo:ab/cd'') store_S4)
     ''my-favorite-id'' = owner_rows store_S4 ''my-favorite-id''"
    by (simp del: apply_operation.simps)
  show ?thesis
    by (intro conjI) (rule mirror_store_S4 a b c)+
qed

lemma in_if_singleton: "x \<in> set (if C then [r] else []) \<longleftrightarrow> C \<and> x = r"
  by auto

lemma in_select_outdated_connections:
  "x \<in> set (select_outdated_connections db since) \<longleftrightarrow>
     (\<exists>obj \<in> set (objects db). \<exists>c \<in> set (connections db).
        o_id obj = c_object_id c \<and>
        x = \<lparr>oc_typename = o_typename obj, oc_id = o_id obj,
               oc_fieldname = c_fieldname c, oc_endCursor = c_end_cursor c\<rparr> \<and>
        (\<exists>u \<in> set (left_outer_join_updates (updates db) (o_last_update obj)).
           (sql_true (c_has_next_page c) \<or> c_last_update c = None) \<or> time_before u since))"
  unfolding select_outdated_connections_def set_concat set_map UN_iff bex_simps image_iff
    in_if_singleton set_filter mem_Collect_eq
  by blast

lemma outdated_connection_iff:
  "x \<in> set (select_outdated_connections db since) \<longleftrightarrow>
     (\<exists>obj \<in> set (objects db). \<exists>c \<in> set (connections db).
        o_id obj = c_object_id c \<and>
        x = \<lparr>oc_typename = o_typename obj, oc_id = o_id obj,
               oc_fieldname = c_fieldname c, oc_endCursor = c_end_cursor c\<rparr> \<and>
        (sql_true (c_has_next_page c) \<or> c_last_update c = None \<or>
         (\<exists>u \<in> set (updates db).
            o_last_update obj = Some (u_rowid u) \<and> u_time_epoch_millis u < since)))"
  unfolding in_select_outdated_connections loj_stale by blast

lemma find_unique:
  assumes "distinct (map f xs)" and "x \<in> set xs"
  shows "find (\<lambda>y. f y = f x) xs = Some x"
proof -
  from assms(2) obtain y where y: "find (\<lambda>y. f y = f x) xs = Some y"
    by (cases "find (\<lambda>y. f y = f x) xs") (auto simp: find_None_iff)
  then have "y \<in> set xs" "f y = f x" by (auto simp: find_Some_iff)
  with assms have "y = x" by (metis distinct_map_eq)
  with y show ?thesis by simp
qed

lemma getEndCursor_row:
  assumes "distinct (map connection_key (connections db))" and "c \<in> set (connections db)"
  shows "getEndCursor (c_object_id c) (c_fieldname c) db =
     Inr (if c_last_update c = None then Undefined else EndCursor (c_end_cursor c))"
proof -
  have "(\<lambda>y. c_object_id y = c_object_id c \<and> c_fieldname y = c_fieldname c) =
      (\<lambda>y. connection_key y = connection_key c)"
    by (auto simp: connection_key_def)
  with find_unique [OF assms] show ?thesis
    by (simp add: getEndCursor_def)
qed

text \<open>
  C10 (as stated, refuted). In the store of the test "finds the right objects and
  connections", where the columns were set by hand, the \<open>comments\<close> connection of
  \<open>issue:ab/cd#1\<close> has \<open>last_update\<close> NULL and \<open>findOutdated\<close> returns it with the
  \<open>endCursor\<close> \<open>"cursor:issue1.comments"\<close>, not \<open>null\<close>.
\<close>

theorem findOutdated_unfetched_cursor_counterexample:
  "\<lparr>c_rowid = 2, c_object_id = ''issue:ab/cd#1'', c_fieldname = ''comments'',
     c_last_update = None, c_total_count = None, c_has_next_page = Some 0,
     c_end_cursor = Some ''cursor:issue1.comments''\<rparr> \<in> set (connections scenario_S5) \<and>
   (\<exists>r. findOutdated 456 scenario_S5 = (Inr r, scenario_S5) \<and>
      out_connections r =
        [\<lparr>oc_typename = ''Repository'', oc_id = ''repo:ab/cd'', oc_fieldname = ''issues'',
          oc_endCursor = Some ''cursor:repo.issues''\<rparr>,
         \<lparr>oc_typename = ''Issue'', oc_id = ''issue:ab/cd#1'', oc_fieldname = ''comments'',
          oc_endCursor = Some ''cursor:issue1.comments''\<rparr>,
         \<lparr>oc_typename = ''Issue'', oc_id = ''issue:ab/cd#2'', oc_fieldname = ''comments'',
          oc_endCursor = None\<rparr>])"
  by (simp add: scenario_S5_def initialized_store_def findOutdated_def run_inTransaction_def
      select_outdated_objects_def select_outdated_connections_def left_outer_join_updates_def
      time_before_def sql_true_def)

text \<open>
  C10 (amended). In every store that only the mirror has written, for each connection row:
  \<open>findOutdated\<close> returns; if the row's \<open>last_update\<close> is NULL, the connection is among
  the results and its \<open>endCursor\<close> there is \<open>null\<close>; whenever the connection is among
  the results its \<open>endCursor\<close> is the stored \<open>end_cursor\<close>, so a fetched connection with
  a NULL cursor shows \<open>null\<close> as well; \<open>_getEndCursor\<close> returns \<open>undefined\<close> exactly
  when \<open>last_update\<close> is NULL, and the stored cursor otherwise.
\<close>

theorem findOutdated_endCursor_does_not_tell:
  assumes "mirror_store schema db" and "c \<in> set (connections db)"
  shows "\<exists>r. findOutdated since db = (Inr r, db) \<and>
     (c_last_update c = None \<longrightarrow>
        (\<exists>x \<in> set (out_connections r).
           oc_id x = c_object_id c \<and> oc_fieldname x = c_fieldname c) \<and>
        (\<forall>x \<in> set (out_connections r).
           oc_id x = c_object_id c \<and> oc_fieldname x = c_fieldname c \<longrightarrow>
           oc_endCursor x = None)) \<and>
     (\<forall>x \<in> set (out_connections r).
        oc_id x = c_object_id c \<and> oc_fieldname x = c_fieldname c \<longrightarrow>
        oc_endCursor x = c_end_cursor c) \<and>
     getEndCursor (c_object_id c) (c_fieldname c) db =
       Inr (if c_last_update c = None then Undefined else EndCursor (c_end_cursor c))"
proof -
  from mirror_store_inv [OF assms(1)] have inv: "rows_inv schema db"
    and nt: "\<not> inTransaction db"
    by simp_all
  from inv have keys: "inv_keys db" and unf: "inv_unfetched db"
    by (simp_all add: rows_inv_def)
  from keys have dk: "distinct (map connection_key (connections db))"
    by (simp add: inv_keys_def)
  let ?r = "\<lparr>out_objects = select_outdated_objects db since,
             out_connections = select_outdated_connections db since\<rparr>"
  have run: "findOutdated since db = (Inr ?r, db)"
    using nt by (rule findOutdated_run)
  have same: "oc_endCursor x = c_end_cursor c"
    if x: "x \<in> set (out_connections ?r)"
      and k: "oc_id x = c_object_id c \<and> oc_fieldname x = c_fieldname c" for x
  proof -
    from x have "x \<in> set (select_outdated_connections db since)" by simp
    then have "\<exists>obj \<in> set (objects db). \<exists>c' \<in> set (connections db).
        o_id obj = c_object_id c' \<and>
        x = \<lparr>oc_typename = o_typename obj, oc_id = o_id obj,
               oc_fieldname = c_fieldname c', oc_endCursor = c_end_cursor c'\<rparr>"
      unfolding outdated_connection_iff by blast
    then obtain obj where "obj \<in> set (objects db)"
      and ex: "\<exists>c' \<in> set (connections db).
        o_id obj = c_object_id c' \<and>
        x = \<lparr>oc_typename = o_typename obj, oc_id = o_id obj,
               oc_fieldname = c_fieldname c', oc_endCursor = c_end_cursor c'\<rparr>"
      by (rule bexE)
    from ex obtain c' where c': "c' \<in> set (connections db)"
      and xo: "o_id obj = c_object_id c' \<and>
        x = \<lparr>oc_typename = o_typename obj, oc_id = o_id obj,
               oc_fieldname = c_fieldname c', oc_endCursor = c_end_cursor c'\<rparr>"
      by (rule bexE)
    from xo have xe: "x = \<lparr>oc_typename = o_typename obj, oc_id = o_id obj,
               oc_fieldname = c_fieldname c', oc_endCursor = c_end_cursor c'\<rparr>"
      and o: "o_id obj = c_object_id c'"
      by simp_all
    with k have "connection_key c' = connection_key c"
      by (simp add: connection_key_def)
    with dk c' assms(2) have "c' = c" by (metis distinct_map_eq)
    with xe show ?thesis by simp
  qed
  have unfetched_row: "(\<exists>x \<in> set (out_connections ?r).
           oc_id x = c_object_id c \<and> oc_fieldname x = c_fieldname c) \<and>
        (\<forall>x \<in> set (out_connections ?r).
           oc_id x = c_object_id c \<and> oc_fieldname x = c_fieldname c \<longrightarrow>
           oc_endCursor x = None)"
    if n: "c_last_update c = None"
  proof
    from keys assms(2) obtain obj where obj: "obj \<in> set (objects db)"
      "o_id obj = c_object_id c"
      by (auto simp: inv_keys_def)
    let ?x = "\<lparr>oc_typename = o_typename obj, oc_id = o_id obj,
               oc_fieldname = c_fieldname c, oc_endCursor = c_end_cursor c\<rparr>"
    have "?x \<in> set (select_outdated_connections db since)"
      unfolding outdated_connection_iff using obj assms(2) n by blast
    with obj show "\<exists>x \<in> set (out_connections ?r).
           oc_id x = c_object_id c \<and> oc_fieldname x = c_fieldname c"
      by (intro bexI [of _ ?x]) simp_all
    from unf assms(2) n have "c_end_cursor c = None"
      by (auto simp: inv_unfetched_def unfetched_def)
    with same show "\<forall>x \<in> set (out_connections ?r).
           oc_id x = c_object_id c \<and> oc_fieldname x = c_fieldname c \<longrightarrow>
           oc_endCursor x = None"
      by simp
  qed
  show ?thesis
    unfolding run using unfetched_row same getEndCursor_row [OF dk assms(2)]
    by (intro exI [of _ ?r] conjI) blast+
qed









lemma select_next_index_flag [simp]:
  "select_next_index (db\<lparr>inTransaction := b\<rparr>) cid = select_next_index db cid"
  by (simp add: select_next_index_def)


lemma entry_indices_flag [simp]:
  "entry_indices (db\<lparr>inTransaction := b\<rparr>) cid = entry_indices db cid"
  by (simp add: entry_indices_def)









subsection \<open>Ingestion, construction and the fingerprint\<close>

theorem findOutdated_endCursor_does_not_tell_witness:
  "mirror_store githubSchema store_two_repos \<and>
   \<lparr>c_rowid = 1, c_object_id = ''repo:a'', c_fieldname = ''issues'',
     c_last_update = None, c_total_count = None, c_has_next_page = None,
     c_end_cursor = None\<rparr> \<in> set (connections store_two_repos) \<and>
   \<lparr>c_rowid = 2, c_object_id = ''repo:b'', c_fieldname = ''issues'',
     c_last_update = Some 1, c_total_count = Some 5, c_has_next_page = Some 1,
     c_end_cursor = None\<rparr> \<in> set (connections store_two_repos) \<and>
   (\<exists>r. findOutdated 50 store_two_repos = (Inr r, store_two_repos) \<and>
      out_connections r =
        [\<lparr>oc_typename = ''Repository'', oc_id = ''repo:a'', oc_fieldname = ''issues'',
          oc_endCursor = None\<rparr>,
         \<lparr>oc_typename = ''Repository'', oc_id = ''repo:b'', oc_fieldname = ''issues'',
          oc_endCursor = None\<rparr>]) \<and>
   getEndCursor ''repo:a'' ''issues'' store_two_repos = Inr Undefined \<and>
   getEndCursor ''repo:b'' ''issues'' store_two_repos = Inr (EndCursor None)"
proof -
  let ?a = "\<lparr>c_rowid = 1, c_object_id = ''repo:a'', c_fieldname = ''issues'',
     c_last_update = None, c_total_count = None, c_has_next_page = None,
     c_end_cursor = None\<rparr>"
  let ?b = "\<lparr>c_rowid = 2, c_object_id = ''repo:b'', c_fieldname = ''issues'',
     c_last_update = Some 1, c_total_count = Some 5, c_has_next_page = Some 1,
     c_end_cursor = None\<rparr>"
  have a: "?a \<in> set (connections store_two_repos)" by (simp add: store_two_repos_def)
  have b: "?b \<in> set (connections store_two_repos)" by (simp add: store_two_repos_def)
  note Ta = findOutdated_endCursor_does_not_tell [OF mirror_store_two_repos a, of 50]
  note Tb = findOutdated_endCursor_does_not_tell [OF mirror_store_two_repos b, of 50]
  from Ta obtain r where r: "findOutdated 50 store_two_repos = (Inr r, store_two_repos)"
    and ga: "getEndCursor (c_object_id ?a) (c_fieldname ?a) store_two_repos =
       Inr (if c_last_update ?a = None then Undefined else EndCursor (c_end_cursor ?a))"
    by blast
  from Tb have gb: "getEndCursor (c_object_id ?b) (c_fieldname ?b) store_two_repos =
       Inr (if c_last_update ?b = None then Undefined else EndCursor (c_end_cursor ?b))"
    by blast
  have nt: "\<not> inTransaction store_two_repos"
    by (simp add: store_two_repos_def initialized_store_def)
  have e: "select_outdated_connections store_two_repos 50 =
        [\<lparr>oc_typename = ''Repository'', oc_id = ''repo:a'', oc_fieldname = ''issues'',
          oc_endCursor = None\<rparr>,
         \<lparr>oc_typename = ''Repository'', oc_id = ''repo:b'', oc_fieldname = ''issues'',
          oc_endCursor = None\<rparr>]"
    by (simp add: store_two_repos_def initialized_store_def select_outdated_connections_def
        left_outer_join_updates_def time_before_def sql_true_def)
  from r have o: "out_connections r = select_outdated_connections store_two_repos 50"
    using nt by (auto simp: findOutdated_run)
  from ga have ga': "getEndCursor ''repo:a'' ''issues'' store_two_repos = Inr Undefined"
    by simp
  from gb have gb': "getEndCursor ''repo:b'' ''issues'' store_two_repos = Inr (EndCursor None)"
    by simp
  show ?thesis
    by (intro conjI exI [of _ r]) (rule mirror_store_two_repos a b r o [unfolded e] ga' gb')+
qed





text \<open>
  C3 (as stated, refuted). On the empty store, which has no meta row, constructing a
  Mirror with the schema of the test "rejects a schema with SQL-unsafe type name" throws
  "invalid object type name" and leaves the store empty: no fingerprint is inserted and no
  table is created.
\<close>

theorem Mirror_no_meta_row_counterexample:
  "meta empty_database = [] \<and>
   Mirror empty_database [(''Non-Word-Characters'', OBJECT [(''id'', ID)])] =
     (Inl (UnsafeIdentifier ''invalid object type name: Non-Word-Characters''), empty_database)"
  by code_simp

text \<open>
  C3 (amended). Outside a transaction, constructing a Mirror on a store whose meta row equals
  the schema fingerprint is a no-op; on a store whose meta row differs from the fingerprint
  it throws "Database already populated with incompatible schema or version" and leaves the
  store unchanged; on a store with no meta row it either returns, having inserted the
  fingerprint and created the structural tables and one data table per object type, or
  throws and leaves the store unchanged, and what it throws is an error of the database or
  "invalid object type name" or "invalid field name" with the name of an object type or
  of a primitive field of the schema that is not SQL-safe; it throws whenever some object
  type name or primitive field name of the schema is not SQL-safe; and on a store with no
  table, when the names of the tables, and of the columns of each data table, are distinct
  without case, it returns if every object type name and every primitive field name is
  SQL-safe and throws one of the two errors of an unsafe name otherwise.
\<close>

theorem Mirror_construction:
  assumes "\<not> inTransaction db"
  shows "(\<forall>zero rest.
            meta db = (zero, schemaBlob MIRROR_VERSION schema) # rest \<and> name_exists db ''meta'' \<longrightarrow>
            Mirror db schema = (Inr (), db)) \<and>
         (\<forall>zero existing rest.
            meta db = (zero, existing) # rest \<and> existing \<noteq> schemaBlob MIRROR_VERSION schema \<longrightarrow>
            Mirror db schema =
              (Inl (IncompatibleSchema
                 ''Database already populated with incompatible schema or version''), db)) \<and>
         (meta db = [] \<longrightarrow>
            (\<forall>db'. Mirror db schema = (Inr (), db') \<longrightarrow>
               db' = db\<lparr>catalog := catalog (create_meta_if_not_exists db) @ structuralTables @
                                  dataTables schema,
                        meta := [(0, schemaBlob MIRROR_VERSION schema)]\<rparr>) \<and>
            (\<forall>e db'. Mirror db schema = (Inl e, db') \<longrightarrow>
               db' = db \<and> ((\<exists>m. e = SqliteError m) \<or> unsafeIdentifierError schema e)) \<and>
            (\<not> identifiersSafe schema \<longrightarrow> (\<exists>e. Mirror db schema = (Inl e, db))) \<and>
            (catalog db = [] \<and> sqlSafeSchema schema \<longrightarrow>
               Mirror db schema =
                 (Inr (), db\<lparr>catalog := metaTable # structuralTables @ dataTables schema,
                             meta := [(0, schemaBlob MIRROR_VERSION schema)]\<rparr>)) \<and>
            (catalog db = [] \<and> namesDistinct schema \<and> \<not> identifiersSafe schema \<longrightarrow>
               (\<exists>e. unsafeIdentifierError schema e \<and> Mirror db schema = (Inl e, db))))"
proof (intro conjI allI impI)
  fix zero rest
  assume h: "meta db = (zero, schemaBlob MIRROR_VERSION schema) # rest \<and> name_exists db ''meta''"
  then have "create_meta_if_not_exists db = db"
    by (simp add: create_meta_if_not_exists_def)
  with initialize_existing [OF assms, of zero "schemaBlob MIRROR_VERSION schema" rest
      MIRROR_VERSION schema] h
  show "Mirror db schema = (Inr (), db)"
    by (simp add: Mirror_def initialize_def)
next
  fix zero existing rest
  assume h: "meta db = (zero, existing) # rest \<and> existing \<noteq> schemaBlob MIRROR_VERSION schema"
  with initialize_existing [OF assms, of zero existing rest MIRROR_VERSION schema]
  show "Mirror db schema =
      (Inl (IncompatibleSchema
         ''Database already populated with incompatible schema or version''), db)"
    by (simp add: Mirror_def initialize_def)
next
  fix db'
  assume "meta db = []" "Mirror db schema = (Inr (), db')"
  then show "db' = db\<lparr>catalog := catalog (create_meta_if_not_exists db) @ structuralTables @
                                  dataTables schema,
                        meta := [(0, schemaBlob MIRROR_VERSION schema)]\<rparr>"
    unfolding Mirror_def initialize_def by (intro initialize_success_effect)
next
  fix e db'
  assume "Mirror db schema = (Inl e, db')"
  then show "db' = db"
    unfolding Mirror_def initialize_def by (rule initialize_failure)
next
  fix e db'
  assume "meta db = []" "Mirror db schema = (Inl e, db')"
  then show "(\<exists>m. e = SqliteError m) \<or> unsafeIdentifierError schema e"
    unfolding Mirror_def initialize_def by (intro initialize_error [OF assms])
next
  assume "meta db = []" "\<not> identifiersSafe schema"
  then show "\<exists>e. Mirror db schema = (Inl e, db)"
    unfolding Mirror_def initialize_def by (intro initialize_unsafe [OF assms])
next
  assume "meta db = []" "catalog db = [] \<and> sqlSafeSchema schema"
  with assms show "Mirror db schema =
      (Inr (), db\<lparr>catalog := metaTable # structuralTables @ dataTables schema,
                  meta := [(0, schemaBlob MIRROR_VERSION schema)]\<rparr>)"
    unfolding Mirror_def initialize_def by (intro initialize_empty_succeeds) simp_all
next
  assume m: "meta db = []"
    and h: "catalog db = [] \<and> namesDistinct schema \<and> \<not> identifiersSafe schema"
  from h have c: "catalog db = []" and d: "namesDistinct schema"
    and u: "\<not> identifiersSafe schema"
    by simp_all
  from initialize_empty_unsafe [OF assms c m d u]
  obtain msg where r: "initialize_with MIRROR_VERSION schema db = (Inl (UnsafeIdentifier msg), db)"
    by blast
  from initialize_error [OF assms m r]
  have "unsafeIdentifierError schema (UnsafeIdentifier msg)" by simp
  with r show "\<exists>e. unsafeIdentifierError schema e \<and> Mirror db schema = (Inl e, db)"
    unfolding Mirror_def initialize_def by (intro exI [of _ "UnsafeIdentifier msg"] conjI)
qed

lemma name_exists_initialized: "name_exists (initialized_store version schema) ''meta''"
  by (simp add: name_exists_def initialized_store_def metaTable_def)

lemma schemaBlob_A_B: "schemaBlob MIRROR_VERSION schema_A \<noteq> schemaBlob MIRROR_VERSION schema_B"
  by code_simp

lemma isSqlSafe_examples:
  "isSqlSafe ''A''" "isSqlSafe ''url''" "\<not> isSqlSafe ''Non-Word-Characters''"
  by code_simp+

theorem Mirror_construction_witness:
  "\<not> inTransaction (initialized_store MIRROR_VERSION schema_A) \<and>
   \<not> inTransaction empty_database \<and>
   Mirror empty_database schema_A = (Inr (), initialized_store MIRROR_VERSION schema_A) \<and>
   Mirror (initialized_store MIRROR_VERSION schema_A) schema_A =
     (Inr (), initialized_store MIRROR_VERSION schema_A) \<and>
   Mirror (initialized_store MIRROR_VERSION schema_A) schema_B =
     (Inl (IncompatibleSchema
        ''Database already populated with incompatible schema or version''),
      initialized_store MIRROR_VERSION schema_A) \<and>
   Mirror empty_database
       [(''A'', OBJECT [(''id'', ID), (''url'', PRIMITIVE)]),
        (''Non-Word-Characters'', OBJECT [(''id'', ID)])] =
     (Inl (UnsafeIdentifier ''invalid object type name: Non-Word-Characters''),
      empty_database) \<and>
   Mirror empty_database
       [(''A'', OBJECT [(''id'', ID), (''Non-Word-Characters'', PRIMITIVE)])] =
     (Inl (UnsafeIdentifier ''invalid field name: Non-Word-Characters''), empty_database)"
proof -
  let ?s = "initialized_store MIRROR_VERSION schema_A"
  let ?T = "[(''A'', OBJECT [(''id'', ID), (''url'', PRIMITIVE)]),
             (''Non-Word-Characters'', OBJECT [(''id'', ID)])]"
  let ?F = "[(''A'', OBJECT [(''id'', ID), (''Non-Word-Characters'', PRIMITIVE)])]"
  have h0: "\<not> inTransaction empty_database" by (simp add: empty_database_def)
  have h1: "\<not> inTransaction ?s" by (simp add: initialized_store_def)
  have safe: "sqlSafeSchema schema_A" by code_simp
  have e: "meta empty_database = []" "catalog empty_database = [] \<and> sqlSafeSchema schema_A"
    using safe by (simp_all add: empty_database_def)
  from Mirror_construction [OF h0, of schema_A, THEN conjunct2, THEN conjunct2, THEN mp,
      OF e(1), THEN conjunct2, THEN conjunct2, THEN conjunct2, THEN conjunct1, THEN mp, OF e(2)]
  have a: "Mirror empty_database schema_A = (Inr (), ?s)"
    by (simp add: empty_database_def initialized_store_def)
  have m: "meta ?s = (0, schemaBlob MIRROR_VERSION schema_A) # [] \<and> name_exists ?s ''meta''"
    using name_exists_initialized by (simp add: initialized_store_def)
  from Mirror_construction [OF h1, of schema_A, THEN conjunct1, THEN spec, THEN spec, THEN mp,
      OF m]
  have b: "Mirror ?s schema_A = (Inr (), ?s)" .
  have m': "meta ?s = (0, schemaBlob MIRROR_VERSION schema_A) # [] \<and>
      schemaBlob MIRROR_VERSION schema_A \<noteq> schemaBlob MIRROR_VERSION schema_B"
    using schemaBlob_A_B by (simp add: initialized_store_def)
  from Mirror_construction [OF h1, of schema_B, THEN conjunct2, THEN conjunct1, THEN spec,
      THEN spec, THEN spec, THEN mp, OF m']
  have c: "Mirror ?s schema_B =
     (Inl (IncompatibleSchema
        ''Database already populated with incompatible schema or version''), ?s)" .
  have dT: "namesDistinct ?T" by code_simp
  have uT: "\<not> identifiersSafe ?T" by code_simp
  have hT: "catalog empty_database = [] \<and> namesDistinct ?T \<and> \<not> identifiersSafe ?T"
    using dT uT by (simp add: empty_database_def)
  from Mirror_construction [OF h0, of ?T, THEN conjunct2, THEN conjunct2, THEN mp,
      OF e(1), THEN conjunct2, THEN conjunct2, THEN conjunct2, THEN conjunct2, THEN mp, OF hT]
  obtain eT where eT: "unsafeIdentifierError ?T eT"
    and rT: "Mirror empty_database ?T = (Inl eT, empty_database)"
    by blast
  from eT have "eT = UnsafeIdentifier ''invalid object type name: Non-Word-Characters''"
    by (simp add: unsafeIdentifierError_def isSqlSafe_examples)
  with rT have d: "Mirror empty_database ?T =
     (Inl (UnsafeIdentifier ''invalid object type name: Non-Word-Characters''), empty_database)"
    by simp
  have dF: "namesDistinct ?F" by code_simp
  have uF: "\<not> identifiersSafe ?F" by code_simp
  have hF: "catalog empty_database = [] \<and> namesDistinct ?F \<and> \<not> identifiersSafe ?F"
    using dF uF by (simp add: empty_database_def)
  from Mirror_construction [OF h0, of ?F, THEN conjunct2, THEN conjunct2, THEN mp,
      OF e(1), THEN conjunct2, THEN conjunct2, THEN conjunct2, THEN conjunct2, THEN mp, OF hF]
  obtain eF where eF: "unsafeIdentifierError ?F eF"
    and rF: "Mirror empty_database ?F = (Inl eF, empty_database)"
    by blast
  from eF have "eF = UnsafeIdentifier ''invalid field name: Non-Word-Characters''"
    by (simp add: unsafeIdentifierError_def isSqlSafe_examples)
  with rF have f: "Mirror empty_database ?F =
     (Inl (UnsafeIdentifier ''invalid field name: Non-Word-Characters''), empty_database)"
    by simp
  show ?thesis
    by (intro conjI) (rule h0 h1 a b c d f)+
qed



subsection \<open>Stale connections\<close>

lemma store_fetched_eq:
  "store_fetched = (initialized_store MIRROR_VERSION githubSchema)
     \<lparr>updates := [\<lparr>u_rowid = 1, u_time_epoch_millis = 100\<rparr>],
      objects := [\<lparr>o_id = ''repo:ab/cd'', o_last_update = None, o_typename = ''Repository''\<rparr>],
      connections := [\<lparr>c_rowid = 1, c_object_id = ''repo:ab/cd'', c_fieldname = ''issues'',
          c_last_update = Some 1, c_total_count = Some 0, c_has_next_page = Some 0,
          c_end_cursor = None\<rparr>]\<rparr>"
  by (simp add: store_fetched_def eval_defs)

lemma mirror_store_fetched: "mirror_store githubSchema store_fetched"
proof -
  let ?s0 = "initialized_store MIRROR_VERSION githubSchema"
  let ?s1 = "apply_operation githubSchema (RegisterObject ''Repository'' ''repo:ab/cd'') ?s0"
  let ?s2 = "apply_operation githubSchema (CreateUpdate 100) ?s1"
  let ?s3 = "apply_operation githubSchema (UpdateConnection 1 ''repo:ab/cd'' ''issues''
      \<lparr>totalCount = 0, pageInfo = \<lparr>hasNextPage = False, endCursor = None\<rparr>, nodes = []\<rparr>) ?s2"
  have "mirror_store githubSchema ?s3"
    by (intro mirror_store.operated mirror_store_initialized)
  moreover have "?s3 = store_fetched"
    by (simp add: store_fetched_eq) (simp add: eval_defs)
  ultimately show ?thesis by simp
qed

text \<open>
  C1 (the code departs from it). In the store that \<open>registerObject\<close> of a repository,
  \<open>_createUpdate\<close> at time 100 and \<open>_updateConnection\<close> of its \<open>issues\<close> with an empty
  last page leave, the connection's \<open>last_update\<close> is the update of time 100 and
  \<open>has_next_page\<close> is 0, and \<open>findOutdated(500)\<close> returns no connection: the query
  joins \<open>updates\<close> on the \<open>last_update\<close> of the object, which is NULL here, not on that
  of the connection.
\<close>

theorem findOutdated_connections_join_the_object:
  "mirror_store githubSchema store_fetched \<and>
   updates store_fetched = [\<lparr>u_rowid = 1, u_time_epoch_millis = 100\<rparr>] \<and>
   connections store_fetched =
     [\<lparr>c_rowid = 1, c_object_id = ''repo:ab/cd'', c_fieldname = ''issues'',
       c_last_update = Some 1, c_total_count = Some 0, c_has_next_page = Some 0,
       c_end_cursor = None\<rparr>] \<and>
   findOutdated 500 store_fetched =
     (Inr \<lparr>out_objects = [\<lparr>oo_typename = ''Repository'', oo_id = ''repo:ab/cd''\<rparr>],
           out_connections = []\<rparr>, store_fetched)"
proof -
  have e: "findOutdated 500 store_fetched =
     (Inr \<lparr>out_objects = [\<lparr>oo_typename = ''Repository'', oo_id = ''repo:ab/cd''\<rparr>],
           out_connections = []\<rparr>, store_fetched)"
    by (simp add: store_fetched_eq initialized_store_def findOutdated_def run_inTransaction_def
      select_outdated_objects_def select_outdated_connections_def left_outer_join_updates_def
      time_before_def sql_true_def)
  have u: "updates store_fetched = [\<lparr>u_rowid = 1, u_time_epoch_millis = 100\<rparr>]"
    by (simp add: store_fetched_eq)
  have c: "connections store_fetched =
     [\<lparr>c_rowid = 1, c_object_id = ''repo:ab/cd'', c_fieldname = ''issues'',
       c_last_update = Some 1, c_total_count = Some 0, c_has_next_page = Some 0,
       c_end_cursor = None\<rparr>]"
    by (simp add: store_fetched_eq)
  show ?thesis
    by (intro conjI) (rule mirror_store_fetched u c e)+
qed

end
